theory Spec2Isabelle
  imports Main "HOL-Library.Word" "HOL-Library.Signed_Division"
begin

unbundle bit_operations_syntax

section \<open>Fixed-point library (core/math/fixed\_point.c, fixed\_point.h)\<close>

text \<open>
  \<open>fixed_t\<close> is \<open>int32_t\<close> (Q15.16), \<open>fixed_dbl_t\<close> is \<open>int64_t\<close>.  A \<open>fixed_t\<close> is a
  32-bit word read with \<open>sint\<close>; 32-bit additions and subtractions wrap.  The 64-bit
  intermediates of \<open>fixed_mul\<close> and \<open>fixed_div\<close> are computed on \<open>int\<close>: with 32-bit
  operands they stay far inside the 64-bit range, so no wrap-around occurs before the final
  cast to \<open>fixed_t\<close>, which keeps the low 32 bits (\<open>word_of_int\<close>).  A right shift of a
  signed value is arithmetic (\<open>signed_drop_bit\<close>, or \<open>div\<close> on \<open>int\<close>, which rounds towards
  minus infinity); the C operator \<open>/\<close> truncates towards zero (\<open>sdiv\<close> on \<open>int\<close>).
\<close>

type_synonym fixed_t = "32 word"

definition FIXED_FRACTIONAL_BITS :: nat where
  "FIXED_FRACTIONAL_BITS = 16"

definition FIXED_SCALE :: int where
  "FIXED_SCALE = 2 ^ FIXED_FRACTIONAL_BITS"

definition FIXED_ONE :: fixed_t where
  "FIXED_ONE = 65536"

definition FIXED_TWO :: fixed_t where
  "FIXED_TWO = 131072"

definition FIXED_MAX :: fixed_t where
  "FIXED_MAX = 0x7FFFFFFF"

definition FIXED_MIN :: fixed_t where
  "FIXED_MIN = 0x80000000"

definition INT_TO_FIXED :: "32 word \<Rightarrow> fixed_t" where
  "INT_TO_FIXED x = push_bit FIXED_FRACTIONAL_BITS x"

definition fixed_abs :: "fixed_t \<Rightarrow> fixed_t" where
  "fixed_abs x = (if x <s 0 then - x else x)"

definition fixed_mul :: "fixed_t \<Rightarrow> fixed_t \<Rightarrow> fixed_t" where
  "fixed_mul a b =
     (let temp = sint a * sint b;
          temp = temp + (if 0 \<le> temp then FIXED_SCALE div 2 else - (FIXED_SCALE div 2))
      in word_of_int (drop_bit FIXED_FRACTIONAL_BITS temp))"

definition fixed_div :: "fixed_t \<Rightarrow> fixed_t \<Rightarrow> fixed_t" where
  "fixed_div a b =
     (if b = 0 then (if 0 \<le>s a then FIXED_MAX else FIXED_MIN)
      else
        let temp = push_bit FIXED_FRACTIONAL_BITS (sint a);
            temp = (if 0 \<le> temp then temp + sint (signed_drop_bit 1 b)
                    else temp - sint (signed_drop_bit 1 b))
        in word_of_int (temp sdiv sint b))"

fun sqrt_loop :: "nat \<Rightarrow> fixed_t \<Rightarrow> fixed_t \<Rightarrow> fixed_t" where
  "sqrt_loop 0 x guess = guess"
| "sqrt_loop (Suc i) x guess =
     (let div_result = fixed_div x guess;
          new_guess = signed_drop_bit 1 (guess + div_result)
      in if fixed_abs (new_guess - guess) <s 16 then guess
         else sqrt_loop i x new_guess)"

definition fixed_sqrt :: "fixed_t \<Rightarrow> fixed_t" where
  "fixed_sqrt x =
     (if x \<le>s 0 then 0
      else
        let guess = signed_drop_bit 1 x;
            guess = (if guess = 0 then FIXED_ONE else guess)
        in sqrt_loop 8 x guess)"

text \<open>
  The range reduction of \<open>fixed_log\<close>: \<open>while(y >= FIXED_TWO) { y >>= 1; int_part++; }\<close>.
\<close>

function log_reduce :: "fixed_t \<Rightarrow> 32 word \<Rightarrow> fixed_t \<times> 32 word" where
  "log_reduce y int_part =
     (if FIXED_TWO \<le>s y then log_reduce (signed_drop_bit 1 y) (int_part + 1)
      else (y, int_part))"
  by pat_completeness auto
termination
proof (relation "measure (\<lambda>(y, int_part). nat (sint y))")
  show "wf (measure (\<lambda>(y, int_part). nat (sint y)))"
    by simp
next
  fix y int_part :: "32 word"
  assume "FIXED_TWO \<le>s y"
  then have "131072 \<le> sint y"
    by (simp add: word_sle_eq FIXED_TWO_def)
  then have "sint y div 2 < sint y" and "0 < sint y"
    by simp_all
  then show "((signed_drop_bit 1 y, int_part + 1), (y, int_part))
      \<in> measure (\<lambda>(y, int_part). nat (sint y))"
    by (simp add: sint_signed_drop_bit_eq drop_bit_eq_div)
qed

text \<open>
  \<open>FLOAT_TO_FIXED(0.94f)\<close> is \<open>(fixed_t)(0.94f * 65536)\<close> = 61603 and
  \<open>FLOAT_TO_FIXED(0.693147f)\<close> is 45426: compile-time constants, truncated towards zero.
\<close>

definition fixed_log :: "fixed_t \<Rightarrow> fixed_t" where
  "fixed_log x =
     (if x \<le>s 0 then FIXED_MIN
      else
        let (y, int_part) = log_reduce x 0;
            frac_part = fixed_mul (y - FIXED_ONE) 61603;
            log2_result = INT_TO_FIXED int_part + frac_part;
            ln2 = 45426
        in fixed_mul log2_result ln2)"


section \<open>Threat model scoring (threat\_model.c)\<close>

datatype RiskLevel_t = RISK_LOW | RISK_MEDIUM | RISK_HIGH | RISK_CRITICAL

definition VULN_SCORE_CRITICAL :: "16 word" where
  "VULN_SCORE_CRITICAL = 900"

definition VULN_SCORE_HIGH :: "16 word" where
  "VULN_SCORE_HIGH = 700"

definition VULN_SCORE_MEDIUM :: "16 word" where
  "VULN_SCORE_MEDIUM = 400"

definition VULN_SCORE_LOW :: "16 word" where
  "VULN_SCORE_LOW = 200"

text \<open>
  The fields of \<open>ThreatAnalysisContext_t\<close> that the scoring reads.  \<open>entropy_per_byte\<close> is
  a C \<open>float\<close>; floating point is not modelled, so the field \<open>entropy_points\<close> carries what
  the scoring makes of it: \<open>None\<close> when \<open>entropy_per_byte < 4.0f\<close> is false, and
  \<open>Some p\<close> when it is true, where \<open>p\<close> is the value of the conversion
  \<open>(uint16_t)((4.0f - entropy_per_byte) * 75)\<close>, left arbitrary.
\<close>

record ThreatAnalysisContext_t =
  entropy_points :: "16 word option"
  static_ratio :: "8 word"
  crc_validated :: bool
  rolling_code_detected :: bool
  exact_replay_detected :: bool

record ThreatAssessment_t =
  level :: RiskLevel_t
  has_checksum :: bool
  has_rolling_code :: bool
  is_static :: bool
  assessed_static_ratio :: "16 word"
  vulnerability_score :: "16 word"

text \<open>
  \<open>score\<close> is a \<open>uint16_t\<close>: every \<open>score += e\<close> is computed in \<open>int\<close> and stored back
  modulo \<open>2^16\<close>.
\<close>

definition threat_model_calculate_vulnerability_score :: "ThreatAnalysisContext_t \<Rightarrow> 16 word" where
  "threat_model_calculate_vulnerability_score ctx =
     (let score = 0;
          score = (case entropy_points ctx of Some p \<Rightarrow> score + p | None \<Rightarrow> score);
          score = score + word_of_nat ((unat (static_ratio ctx) * 250) div 100);
          score = (if \<not> crc_validated ctx then score + 200 else score);
          score = (if \<not> rolling_code_detected ctx then score + 150 else score);
          score = (if exact_replay_detected ctx then score + 100 else score)
      in if 1000 < score then 1000 else score)"

definition threat_model_calculate_risk_level :: "ThreatAnalysisContext_t \<Rightarrow> RiskLevel_t" where
  "threat_model_calculate_risk_level ctx =
     (let score = threat_model_calculate_vulnerability_score ctx
      in if VULN_SCORE_CRITICAL \<le> score then RISK_CRITICAL
         else if VULN_SCORE_HIGH \<le> score then RISK_HIGH
         else if VULN_SCORE_MEDIUM \<le> score then RISK_MEDIUM
         else if VULN_SCORE_LOW \<le> score then RISK_LOW
         else RISK_LOW)"

text \<open>
  \<open>threat_model_assess_vulnerabilities\<close>, from the point where the six analysis passes have
  filled the context: the assessment is then written from the context.  (\<open>entropy_bits\<close>
  and the description text are derived from the \<open>float\<close> and are left out.)
\<close>

definition threat_model_assess_vulnerabilities :: "ThreatAnalysisContext_t \<Rightarrow> ThreatAssessment_t" where
  "threat_model_assess_vulnerabilities ctx =
     \<lparr> level = threat_model_calculate_risk_level ctx,
       has_checksum = crc_validated ctx,
       has_rolling_code = rolling_code_detected ctx,
       is_static = (80 < static_ratio ctx),
       assessed_static_ratio = ucast (static_ratio ctx),
       vulnerability_score = threat_model_calculate_vulnerability_score ctx \<rparr>"

text \<open>
  \<open>threat_model_quick_assess\<close> on one frame.  The two \<open>float\<close> comparisons
  \<open>entropy < 2.0f\<close> and \<open>entropy < 4.0f\<close> are parameters; \<open>all_same\<close> is computed from the
  frame bytes \<open>data[0..length)\<close> as the source does.
\<close>

fun all_same_loop :: "8 word \<Rightarrow> 8 word list \<Rightarrow> bool" where
  "all_same_loop d0 [] = True"
| "all_same_loop d0 (d # ds) = (if d \<noteq> d0 then False else all_same_loop d0 ds)"

definition threat_model_quick_assess :: "bool \<Rightarrow> bool \<Rightarrow> 8 word list \<Rightarrow> ThreatAssessment_t" where
  "threat_model_quick_assess entropy_lt_2 entropy_lt_4 data =
     (let all_same = (case data of [] \<Rightarrow> True | d0 # ds \<Rightarrow> all_same_loop d0 ds);
          r = \<lparr> level = RISK_LOW, has_checksum = False, has_rolling_code = False,
                is_static = False, assessed_static_ratio = 0, vulnerability_score = 0 \<rparr>;
          r = (if all_same then r\<lparr> is_static := True, assessed_static_ratio := 100 \<rparr> else r)
      in if entropy_lt_2 \<or> all_same
           then r\<lparr> level := RISK_HIGH, vulnerability_score := 700 \<rparr>
         else if entropy_lt_4
           then r\<lparr> level := RISK_MEDIUM, vulnerability_score := 400 \<rparr>
         else r\<lparr> level := RISK_LOW, vulnerability_score := 200 \<rparr>)"

section \<open>Modulation classifier (protocol\_infer.c)\<close>

datatype ModulationType_t = MOD_UNKNOWN | MOD_OOK | MOD_ASK | MOD_FSK | MOD_GFSK | MOD_MSK | MOD_PSK

record Pulse_t =
  width_us :: "16 word"
  pulse_level :: "8 word"
  timestamp_us :: "32 word"

definition MAX_PULSE_COUNT :: nat where
  "MAX_PULSE_COUNT = 4096"

text \<open>
  The counting loop of \<open>protocol_infer_detect_modulation_type\<close>; \<open>zero_count\<close> is a
  \<open>uint16_t\<close>.
\<close>

fun count_long_pulses :: "Pulse_t list \<Rightarrow> 16 word \<Rightarrow> 16 word" where
  "count_long_pulses [] zero_count = zero_count"
| "count_long_pulses (p # ps) zero_count =
     count_long_pulses ps (if 1000 < width_us p then zero_count + 1 else zero_count)"

text \<open>
  \<open>pulses\<close> holds the \<open>count\<close> entries of the array that the function reads, so
  \<open>count\<close> is the length of the list as a \<open>uint16_t\<close>; \<open>cluster_count\<close> is the field of
  the global \<open>infer_state\<close> that the function consults.
\<close>

definition protocol_infer_detect_modulation_type :: "8 word \<Rightarrow> Pulse_t list \<Rightarrow> ModulationType_t" where
  "protocol_infer_detect_modulation_type cluster_count pulses =
     (let count = (word_of_nat (length pulses) :: 16 word)
      in if count < 10 then MOD_UNKNOWN
         else
           let zero_count = count_long_pulses pulses 0
           in if count div 3 < zero_count then MOD_OOK
              else if 2 \<le> cluster_count then MOD_FSK
              else MOD_ASK)"

text \<open>
  The band map of the specification, read on an assessment: the score is at most 1000, and
  the level is Critical from 900, High from 700 to 899, Medium from 400 to 699, Low below.
\<close>

definition agrees_with_band_map :: "ThreatAssessment_t \<Rightarrow> bool" where
  "agrees_with_band_map a =
     (let s = unat (vulnerability_score a)
      in s \<le> 1000 \<and>
         (level a = RISK_CRITICAL) = (900 \<le> s) \<and>
         (level a = RISK_HIGH) = (700 \<le> s \<and> s < 900) \<and>
         (level a = RISK_MEDIUM) = (400 \<le> s \<and> s < 700) \<and>
         (level a = RISK_LOW) = (s < 400))"

text \<open>The number of pulses wider than 1000 microseconds, as a plain count.\<close>

definition long_pulse_count :: "Pulse_t list \<Rightarrow> nat" where
  "long_pulse_count pulses = length (filter (\<lambda>p. 1000 < unat (width_us p)) pulses)"

definition long_pulse :: Pulse_t where
  "long_pulse = \<lparr> width_us = 2000, pulse_level = 1, timestamp_us = 0 \<rparr>"

section \<open>Fingerprinting engine (fingerprinting.c, fingerprinting.h)\<close>

datatype error = DivisionByZero | IndexOutOfRange

record Frame_t =
  frame_data :: "8 word list"
  frame_length :: "8 word"
  frame_timestamp_us :: "32 word"
  rssi_dbm :: "16 word"
  frequency_hz :: "32 word"
  pulse_start_idx :: "16 word"
  frame_pulse_count :: "16 word"
  duration_us :: "32 word"
  frame_crc :: "16 word"
  frame_crc_valid :: bool

text \<open>
  \<open>RFFingerprint_t\<close> is not packed: its fields take 29 bytes, the 16-bit \<open>unique_hash\<close> is
  aligned to offset 30, and \<open>sizeof\<close> is 32.  The byte at offset 29 is padding; it is part
  of the record image that \<open>memset\<close> and \<open>memcpy\<close> move and that the hash reads, so the
  record carries it as \<open>padding\<close>.
\<close>

record RFFingerprint_t =
  drift_mean :: "32 word"
  drift_variance :: "32 word"
  rise_time_avg :: "16 word"
  fall_time_avg :: "16 word"
  clock_stability_ppm :: "8 word"
  rssi_signature :: "8 word list"
  padding :: "8 word"
  unique_hash :: "16 word"

datatype FingerprintState_t =
  FINGERPRINT_STATE_IDLE | FINGERPRINT_STATE_SAMPLING | FINGERPRINT_STATE_ANALYZING
  | FINGERPRINT_STATE_MATCHING | FINGERPRINT_STATE_LEARNING

definition FINGERPRINT_SAMPLE_COUNT :: nat where
  "FINGERPRINT_SAMPLE_COUNT = 1000"

definition MAX_SLOPE_SAMPLES :: nat where
  "MAX_SLOPE_SAMPLES = 256"

text \<open>
  \<open>FingerprintCaptureState_t\<close>.  Each sample array with its counter
  (\<open>inter_frame_intervals\<close>/\<open>interval_count\<close>, \<open>rssi_samples\<close>/\<open>rssi_sample_count\<close>,
  \<open>symbol_timings\<close>/\<open>symbol_count\<close>) is the list of the entries written so far, the
  counter being its length; \<open>rssi_envelope\<close> is the full 16-entry array.
\<close>

record FingerprintCaptureState_t =
  inter_frame_intervals :: "32 word list"
  last_frame_timestamp :: "32 word"
  rssi_samples :: "8 word list"
  rssi_sample_start :: "32 word"
  symbol_timings :: "32 word list"
  rssi_envelope :: "8 word list"
  current_fingerprint :: RFFingerprint_t
  fp_state :: FingerprintState_t
  frames_captured :: "32 word"
  capture_start_time :: "32 word"

record StatisticalSummary_t =
  stat_mean :: "32 word"
  stat_variance :: "32 word"
  stat_std_dev :: "32 word"
  stat_min :: "32 word"
  stat_max :: "32 word"
  stat_median :: "32 word"

definition zero_fingerprint :: RFFingerprint_t where
  "zero_fingerprint =
     \<lparr> drift_mean = 0, drift_variance = 0, rise_time_avg = 0, fall_time_avg = 0,
       clock_stability_ppm = 0, rssi_signature = replicate 16 0, padding = 0,
       unique_hash = 0 \<rparr>"

text \<open>\<open>fingerprinting_start_capture\<close>; \<open>tick\<close> is the value of \<open>furi_get_tick()\<close>.\<close>

definition fingerprinting_start_capture :: "32 word \<Rightarrow> FingerprintCaptureState_t" where
  "fingerprinting_start_capture tick =
     \<lparr> inter_frame_intervals = [], last_frame_timestamp = 0, rssi_samples = [],
       rssi_sample_start = 0, symbol_timings = [], rssi_envelope = replicate 16 0,
       current_fingerprint = zero_fingerprint, fp_state = FINGERPRINT_STATE_SAMPLING,
       frames_captured = 0, capture_start_time = tick \<rparr>"

text \<open>The integer square root loop of \<open>fingerprinting_calc_statistics\<close> (16 rounds).\<close>

fun isqrt_loop :: "nat \<Rightarrow> 32 word \<Rightarrow> 32 word \<Rightarrow> 32 word \<Rightarrow> 32 word" where
  "isqrt_loop 0 var std_dev add = std_dev"
| "isqrt_loop (Suc i) var std_dev add =
     (let temp = std_dev OR add
      in isqrt_loop i var (if temp * temp \<le> var then temp else std_dev) (drop_bit 1 add))"

fun min_max_loop :: "32 word list \<Rightarrow> 32 word \<times> 32 word \<Rightarrow> 32 word \<times> 32 word" where
  "min_max_loop [] (mn, mx) = (mn, mx)"
| "min_max_loop (d # ds) (mn, mx) =
     min_max_loop ds (if d < mn then d else mn, if mx < d then d else mx)"

text \<open>
  \<open>sum\<close> and \<open>variance_sum\<close> are \<open>uint64_t\<close>; \<open>diff\<close> is an \<open>int64_t\<close> whose square is
  taken in 64 bits.
\<close>

definition fingerprinting_calc_statistics :: "32 word list \<Rightarrow> StatisticalSummary_t" where
  "fingerprinting_calc_statistics data =
     (case data of
        [] \<Rightarrow> \<lparr> stat_mean = 0, stat_variance = 0, stat_std_dev = 0, stat_min = 0,
                stat_max = 0, stat_median = 0 \<rparr>
      | d0 # _ \<Rightarrow>
          let count = (word_of_nat (length data) :: 64 word);
              sum = foldl (\<lambda>s d. s + ucast d) (0 :: 64 word) data;
              (mn, mx) = min_max_loop data (d0, d0);
              mean = (ucast (sum div count) :: 32 word);
              variance_sum = foldl (\<lambda>s d.
                  let diff = (ucast d - ucast mean :: 64 word) in s + diff * diff)
                (0 :: 64 word) data;
              variance = (ucast (variance_sum div count) :: 32 word);
              std_dev = isqrt_loop 16 variance 0 0x8000
          in \<lparr> stat_mean = mean, stat_variance = variance, stat_std_dev = std_dev,
               stat_min = mn, stat_max = mx, stat_median = mean \<rparr>)"

definition fingerprinting_analyze_timing_drift :: "FingerprintCaptureState_t \<Rightarrow> FingerprintCaptureState_t" where
  "fingerprinting_analyze_timing_drift cs =
     (if length (inter_frame_intervals cs) < 10 then cs
      else
        let stats = fingerprinting_calc_statistics (inter_frame_intervals cs)
        in cs\<lparr> current_fingerprint := (current_fingerprint cs)
                \<lparr> drift_mean := stat_mean stats, drift_variance := stat_variance stats \<rparr> \<rparr>)"

text \<open>
  The slope loop runs over neighbouring samples; the accumulator is
  (\<open>total_rise\<close>, \<open>rise_count\<close>, \<open>total_fall\<close>, \<open>fall_count\<close>).
\<close>

fun slope_loop :: "8 word \<Rightarrow> 8 word list \<Rightarrow> 32 word \<times> 16 word \<times> 32 word \<times> 16 word
    \<Rightarrow> 32 word \<times> 16 word \<times> 32 word \<times> 16 word" where
  "slope_loop prev [] acc = acc"
| "slope_loop prev (s # ss) (total_rise, rise_count, total_fall, fall_count) =
     (let diff = (ucast s - ucast prev :: 16 word)
      in slope_loop s ss
           (if 0 <s diff then (total_rise + scast diff, rise_count + 1, total_fall, fall_count)
            else if diff <s 0 then (total_rise, rise_count, total_fall + scast (- diff), fall_count + 1)
            else (total_rise, rise_count, total_fall, fall_count)))"

definition fingerprinting_analyze_rise_fall_slopes :: "FingerprintCaptureState_t \<Rightarrow> FingerprintCaptureState_t" where
  "fingerprinting_analyze_rise_fall_slopes cs =
     (if length (rssi_samples cs) < 10 then cs
      else
        let (total_rise, rise_count, total_fall, fall_count) =
              slope_loop (hd (rssi_samples cs)) (tl (rssi_samples cs)) (0, 0, 0, 0);
            fp = current_fingerprint cs;
            fp = (if 0 < rise_count then fp\<lparr> rise_time_avg := ucast (total_rise div ucast rise_count) \<rparr>
                  else fp);
            fp = (if 0 < fall_count then fp\<lparr> fall_time_avg := ucast (total_fall div ucast fall_count) \<rparr>
                  else fp)
        in cs\<lparr> current_fingerprint := fp \<rparr>)"

definition fingerprinting_analyze_clock_stability :: "FingerprintCaptureState_t \<Rightarrow> FingerprintCaptureState_t" where
  "fingerprinting_analyze_clock_stability cs =
     (if length (symbol_timings cs) < 10 then cs
      else
        let stats = fingerprinting_calc_statistics (symbol_timings cs)
        in if 0 < stat_mean stats then
             let ppm = (stat_std_dev stats * 1000000) div stat_mean stats;
                 ppm = (if 255 < ppm then 255 else ppm)
             in cs\<lparr> current_fingerprint := (current_fingerprint cs)
                     \<lparr> clock_stability_ppm := ucast ppm \<rparr> \<rparr>
           else cs)"

definition fingerprinting_analyze_rssi_envelope :: "FingerprintCaptureState_t \<Rightarrow> FingerprintCaptureState_t" where
  "fingerprinting_analyze_rssi_envelope cs =
     cs\<lparr> current_fingerprint := (current_fingerprint cs)\<lparr> rssi_signature := rssi_envelope cs \<rparr> \<rparr>"

text \<open>
  The first \<open>sizeof(RFFingerprint_t) - 2\<close> = 30 bytes of the record image, on the
  little-endian target: the fields before \<open>unique_hash\<close> and the padding byte.
\<close>

definition le16 :: "16 word \<Rightarrow> 8 word list" where
  "le16 w = [ucast w, ucast (drop_bit 8 w)]"

definition le32 :: "32 word \<Rightarrow> 8 word list" where
  "le32 w = [ucast w, ucast (drop_bit 8 w), ucast (drop_bit 16 w), ucast (drop_bit 24 w)]"

definition fingerprint_bytes :: "RFFingerprint_t \<Rightarrow> 8 word list" where
  "fingerprint_bytes fp =
     le32 (drift_mean fp) @ le32 (drift_variance fp) @ le16 (rise_time_avg fp) @
     le16 (fall_time_avg fp) @ [clock_stability_ppm fp] @ rssi_signature fp @ [padding fp]"

text \<open>One round of the bit loop of \<open>fingerprinting_calculate_hash\<close>, and the loop.\<close>

definition crc_step :: "16 word \<Rightarrow> 16 word" where
  "crc_step crc = (if crc AND 0x8000 \<noteq> 0 then push_bit 1 crc XOR 0x1021 else push_bit 1 crc)"

fun crc16_bits :: "nat \<Rightarrow> 16 word \<Rightarrow> 16 word" where
  "crc16_bits 0 crc = crc"
| "crc16_bits (Suc j) crc = crc16_bits j (crc_step crc)"

fun crc16_bytes :: "8 word list \<Rightarrow> 16 word \<Rightarrow> 16 word" where
  "crc16_bytes [] crc = crc"
| "crc16_bytes (b # bs) crc = crc16_bytes bs (crc16_bits 8 (crc XOR push_bit 8 (ucast b)))"

definition fingerprinting_calculate_hash :: "RFFingerprint_t \<Rightarrow> 16 word" where
  "fingerprinting_calculate_hash fingerprint = crc16_bytes (fingerprint_bytes fingerprint) 0xFFFF"

text \<open>
  \<open>fingerprinting_generate_fingerprint(RFFingerprint_t* fingerprint)\<close>.  The analyses write
  into the global \<open>capture_state.current_fingerprint\<close>; the hash is read from and written
  through the pointer argument; then \<open>memcpy\<close> copies \<open>current_fingerprint\<close> over the
  pointed-to record.  What happens depends on where the argument points, so the store is
  explicit: the pair of the capture state and one caller-owned record, and the argument
  is \<open>Current\<close> (it is \<open>&capture_state.current_fingerprint\<close>, as in the call from
  \<open>fingerprinting_process_frame\<close>) or \<open>Caller\<close> (it is the caller-owned record).
\<close>

datatype fingerprint_ptr = Current | Caller

definition fingerprinting_generate_fingerprint ::
    "fingerprint_ptr \<Rightarrow> FingerprintCaptureState_t \<times> RFFingerprint_t
      \<Rightarrow> FingerprintCaptureState_t \<times> RFFingerprint_t" where
  "fingerprinting_generate_fingerprint fingerprint store =
     (let (cs, caller) = store;
          cs = fingerprinting_analyze_timing_drift cs;
          cs = fingerprinting_analyze_rise_fall_slopes cs;
          cs = fingerprinting_analyze_clock_stability cs;
          cs = fingerprinting_analyze_rssi_envelope cs
      in case fingerprint of
           Current \<Rightarrow>
             let cs = cs\<lparr> current_fingerprint := (current_fingerprint cs)
                   \<lparr> unique_hash := fingerprinting_calculate_hash (current_fingerprint cs) \<rparr> \<rparr>
             in (cs\<lparr> fp_state := FINGERPRINT_STATE_MATCHING \<rparr>, caller)
         | Caller \<Rightarrow>
             let caller = caller\<lparr> unique_hash := fingerprinting_calculate_hash caller \<rparr>;
                 caller = current_fingerprint cs
             in (cs\<lparr> fp_state := FINGERPRINT_STATE_MATCHING \<rparr>, caller))"

text \<open>
  \<open>fingerprinting_process_frame\<close>.  The division \<open>frame->duration_us / frame->length\<close> is an
  unsigned 32-bit division; the source does not test the divisor, and a zero divisor is
  the error \<open>DivisionByZero\<close> of the model.
\<close>

definition fingerprinting_process_frame ::
    "Frame_t \<Rightarrow> FingerprintCaptureState_t \<Rightarrow> error + FingerprintCaptureState_t" where
  "fingerprinting_process_frame frame cs =
     (if fp_state cs \<noteq> FINGERPRINT_STATE_SAMPLING then Inr cs
      else
        let now = frame_timestamp_us frame;
            cs = (if 0 < last_frame_timestamp cs then
                    let interval = now - last_frame_timestamp cs
                    in if length (inter_frame_intervals cs) < FINGERPRINT_SAMPLE_COUNT
                       then cs\<lparr> inter_frame_intervals := inter_frame_intervals cs @ [interval] \<rparr>
                       else cs
                  else cs);
            cs = cs\<lparr> last_frame_timestamp := now \<rparr>
        in if length (symbol_timings cs) < FINGERPRINT_SAMPLE_COUNT \<and> frame_length frame = 0
           then Inl DivisionByZero
           else
             let cs = (if length (symbol_timings cs) < FINGERPRINT_SAMPLE_COUNT
                       then cs\<lparr> symbol_timings := symbol_timings cs @
                               [duration_us frame div ucast (frame_length frame)] \<rparr>
                       else cs);
                 rssi_idx = unat (ucast (frames_captured cs mod 16) :: 8 word);
                 cs = cs\<lparr> rssi_envelope := (rssi_envelope cs)
                         [rssi_idx := ucast (rssi_dbm frame + 128)] \<rparr>;
                 cs = cs\<lparr> frames_captured := frames_captured cs + 1 \<rparr>
             in if word_of_nat FINGERPRINT_SAMPLE_COUNT \<le> frames_captured cs
                then Inr (fst (fingerprinting_generate_fingerprint Current
                       (cs\<lparr> fp_state := FINGERPRINT_STATE_ANALYZING \<rparr>, current_fingerprint cs)))
                else Inr cs)"

definition empty_frame :: Frame_t where
  "empty_frame =
     \<lparr> frame_data = replicate 64 0, frame_length = 0, frame_timestamp_us = 5000,
       rssi_dbm = 0, frequency_hz = 433920000, pulse_start_idx = 0, frame_pulse_count = 0,
       duration_us = 1200, frame_crc = 0, frame_crc_valid = False \<rparr>"

section \<open>Statistics library: histogram (core/math/statistics.c, statistics.h)\<close>

text \<open>
  The C operator \<open>/\<close> on two \<open>int32_t\<close> values: the quotient truncated towards zero, kept
  in 32 bits.
\<close>

definition sdiv32 :: "32 word \<Rightarrow> 32 word \<Rightarrow> 32 word" where
  "sdiv32 a b = word_of_int (sint a sdiv sint b)"

definition HISTOGRAM_MAX_BINS :: nat where
  "HISTOGRAM_MAX_BINS = 256"

text \<open>\<open>Histogram_t\<close>: \<open>bins\<close> is the array of \<open>HISTOGRAM_MAX_BINS\<close> 16-bit counters.\<close>

record Histogram_t =
  bins :: "16 word list"
  num_bins :: "16 word"
  min_val :: fixed_t
  max_val :: fixed_t
  bin_width :: fixed_t
  total_samples :: "32 word"
  peak_bin :: "16 word"
  peak_count :: "32 word"

text \<open>
  \<open>histogram_init\<close>: \<open>(max_val - min_val) / hist->num_bins\<close> is a signed division by the
  clamped number of bins, which is zero when the caller passes \<open>num_bins = 0\<close>.
\<close>

definition histogram_init :: "16 word \<Rightarrow> fixed_t \<Rightarrow> fixed_t \<Rightarrow> error + Histogram_t" where
  "histogram_init n mn mx =
     (let nb = (if n < word_of_nat HISTOGRAM_MAX_BINS then n else word_of_nat HISTOGRAM_MAX_BINS)
      in if nb = 0 then Inl DivisionByZero
         else
           let bw = sdiv32 (mx - mn) (ucast nb);
               bw = (if bw = 0 then FIXED_ONE else bw)
           in Inr \<lparr> bins = replicate HISTOGRAM_MAX_BINS 0, num_bins = nb, min_val = mn,
                    max_val = mx, bin_width = bw, total_samples = 0, peak_bin = 0,
                    peak_count = 0 \<rparr>)"

text \<open>
  \<open>histogram_add\<close>.  The bin index is the quotient cast to \<open>uint16_t\<close>; the counter
  \<open>bins[bin]\<close> is a \<open>uint16_t\<close> and wraps, \<open>total_samples\<close> and \<open>peak_count\<close> are
  \<open>uint32_t\<close>.  A zero \<open>bin_width\<close> (never left by \<open>histogram_init\<close>) is a division by
  zero, and an index outside the array (only with \<open>num_bins = 0\<close> or above 256, never
  left by \<open>histogram_init\<close>) is the error \<open>IndexOutOfRange\<close>.
\<close>

definition histogram_add :: "Histogram_t \<Rightarrow> fixed_t \<Rightarrow> error + Histogram_t" where
  "histogram_add hist v =
     (if v <s min_val hist \<or> max_val hist <s v then Inr hist
      else if bin_width hist = 0 then Inl DivisionByZero
      else
        let bin = (ucast (sdiv32 (v - min_val hist) (bin_width hist)) :: 16 word);
            bin = (if num_bins hist \<le> bin then num_bins hist - 1 else bin)
        in if length (bins hist) \<le> unat bin then Inl IndexOutOfRange
           else
             let c = bins hist ! unat bin + 1;
                 hist = hist\<lparr> bins := (bins hist)[unat bin := c],
                          total_samples := total_samples hist + 1 \<rparr>
             in if peak_count hist < ucast c
                then Inr (hist\<lparr> peak_count := ucast c, peak_bin := bin \<rparr>)
                else Inr hist)"

text \<open>
  \<open>histogram_normalize\<close> rewrites the first \<open>num_bins\<close> counters in place:
  \<open>bins[i] = (bins[i] * FIXED_SCALE) / total_samples\<close>, a 32-bit product divided unsigned
  and stored in 16 bits.
\<close>

definition normalize_bin :: "32 word \<Rightarrow> 16 word \<Rightarrow> 16 word" where
  "normalize_bin n b = ucast ((ucast b * 65536 :: 32 word) div n)"

definition histogram_normalize :: "Histogram_t \<Rightarrow> Histogram_t" where
  "histogram_normalize hist =
     (if total_samples hist = 0 then hist
      else hist\<lparr> bins := map (normalize_bin (total_samples hist))
                   (take (unat (num_bins hist)) (bins hist)) @
                 drop (unat (num_bins hist)) (bins hist) \<rparr>)"

text \<open>
  The histogram states reachable by the operations that write a histogram, and those
  reached from \<open>histogram_init\<close> by \<open>n\<close> calls of \<open>histogram_add\<close> alone.
\<close>

inductive histogram_reachable :: "Histogram_t \<Rightarrow> bool" where
  reach_init: "histogram_init n mn mx = Inr h \<Longrightarrow> histogram_reachable h"
| reach_add: "histogram_reachable h \<Longrightarrow> histogram_add h v = Inr h' \<Longrightarrow> histogram_reachable h'"
| reach_normalize: "histogram_reachable h \<Longrightarrow> histogram_reachable (histogram_normalize h)"

inductive histogram_after_adds :: "nat \<Rightarrow> Histogram_t \<Rightarrow> bool" where
  adds_init: "histogram_init n mn mx = Inr h \<Longrightarrow> histogram_after_adds 0 h"
| adds_add: "histogram_after_adds k h \<Longrightarrow> histogram_add h v = Inr h'
    \<Longrightarrow> histogram_after_adds (Suc k) h'"

text \<open>
  The invariant of the claim: the bin at \<open>peak_bin\<close> holds \<open>peak_count\<close>, no bin holds
  more, and the bins add up to \<open>total_samples\<close>.
\<close>

definition histogram_invariant :: "Histogram_t \<Rightarrow> bool" where
  "histogram_invariant h =
     (unat (bins h ! unat (peak_bin h)) = unat (peak_count h) \<and>
      list_all (\<lambda>b. unat b \<le> unat (peak_count h)) (bins h) \<and>
      sum_list (map unat (bins h)) = unat (total_samples h))"

text \<open>
  A two-bin histogram over \<open>[0, 2.0]\<close> with one sample in each bin, as the record that
  two calls of \<open>histogram_add\<close> leave.
\<close>

definition two_sample_histogram :: Histogram_t where
  "two_sample_histogram =
     \<lparr> bins = [1, 1] @ replicate 254 0, num_bins = 2, min_val = 0, max_val = 131072,
       bin_width = 65536, total_samples = 2, peak_bin = 0, peak_count = 1 \<rparr>"

text \<open>The invariant carried through the calls of \<open>histogram_add\<close>, \<open>k\<close> the number of calls.\<close>

definition histogram_wf :: "nat \<Rightarrow> Histogram_t \<Rightarrow> bool" where
  "histogram_wf k h =
     (length (bins h) = HISTOGRAM_MAX_BINS \<and> unat (peak_bin h) < HISTOGRAM_MAX_BINS \<and>
      bin_width h \<noteq> 0 \<and> unat (total_samples h) \<le> k \<and> histogram_invariant h)"

section \<open>Statistics library: Welford accumulator (core/math/statistics.c)\<close>

text \<open>
  \<open>WelfordState_t\<close>: \<open>n\<close> is a \<open>uint32_t\<close>, the other fields are \<open>fixed_t\<close>.  (The field
  names carry the prefix \<open>w_\<close>.)
\<close>

record WelfordState_t =
  w_n :: "32 word"
  w_mean :: fixed_t
  w_m2 :: fixed_t
  w_min_val :: fixed_t
  w_max_val :: fixed_t
  w_variance :: fixed_t
  w_std_dev :: fixed_t

definition welford_init :: WelfordState_t where
  "welford_init =
     \<lparr> w_n = 0, w_mean = 0, w_m2 = 0, w_min_val = FIXED_MAX, w_max_val = FIXED_MIN,
       w_variance = 0, w_std_dev = 0 \<rparr>"

text \<open>
  \<open>welford_add_sample\<close>.  In \<open>delta / state->n\<close> the left operand is an \<open>int32_t\<close> and the
  right one a \<open>uint32_t\<close>: by the usual arithmetic conversions \<open>delta\<close> is converted to
  unsigned and the division is the unsigned 32-bit division (\<open>div\<close> on words), whose
  result is added to \<open>mean\<close> modulo \<open>2^32\<close>.  The counter wraps to 0 after \<open>2^32 - 1\<close>
  samples, and the division is then a division by zero.
\<close>

definition welford_add_sample :: "WelfordState_t \<Rightarrow> fixed_t \<Rightarrow> error + WelfordState_t" where
  "welford_add_sample st x =
     (let st = st\<lparr> w_n := w_n st + 1 \<rparr>;
          st = (if x <s w_min_val st then st\<lparr> w_min_val := x \<rparr> else st);
          st = (if w_max_val st <s x then st\<lparr> w_max_val := x \<rparr> else st);
          delta = x - w_mean st
      in if w_n st = 0 then Inl DivisionByZero
         else
           let st = st\<lparr> w_mean := w_mean st + delta div w_n st \<rparr>;
               delta2 = x - w_mean st
           in Inr (st\<lparr> w_m2 := w_m2 st + fixed_mul delta delta2 \<rparr>))"

definition welford_get_mean :: "WelfordState_t \<Rightarrow> fixed_t" where
  "welford_get_mean st = w_mean st"

text \<open>
  \<open>welford_get_variance\<close>: \<open>state->m2 / (state->n - 1)\<close> is again an unsigned division.
\<close>

definition welford_get_variance :: "WelfordState_t \<Rightarrow> fixed_t" where
  "welford_get_variance st = (if w_n st < 2 then 0 else w_m2 st div (w_n st - 1))"

text \<open>The accumulator after the samples \<open>xs\<close>, added in order to a fresh state.\<close>

fun welford_add_all :: "WelfordState_t \<Rightarrow> fixed_t list \<Rightarrow> error + WelfordState_t" where
  "welford_add_all st [] = Inr st"
| "welford_add_all st (x # xs) =
     (case welford_add_sample st x of Inl e \<Rightarrow> Inl e | Inr st' \<Rightarrow> welford_add_all st' xs)"

definition welford_samples :: "fixed_t list \<Rightarrow> error + WelfordState_t" where
  "welford_samples xs = welford_add_all welford_init xs"

text \<open>
  The distance of the stored mean from the exact mean, in raw units (ULPs) times the
  number of samples: \<open>sum xs - n * mean\<close>.
\<close>

definition mean_deficit :: "fixed_t list \<Rightarrow> WelfordState_t \<Rightarrow> int" where
  "mean_deficit xs st = sum_list (map sint xs) - int (length xs) * sint (w_mean st)"

text \<open>The claim's bound on the mean: it is within 1 ULP of the exact mean.\<close>

definition mean_within_one_ulp :: "fixed_t list \<Rightarrow> WelfordState_t \<Rightarrow> bool" where
  "mean_within_one_ulp xs st = (\<bar>mean_deficit xs st\<bar> \<le> int (length xs))"

text \<open>
  The samples that keep \<open>delta = x - mean\<close> non-negative: every sample after the first
  is at least the mean stored when it is added.  (For the first sample the division is
  by 1.)  The stored mean is read from the state that \<open>welford_add_sample\<close> returns.
\<close>

fun deltas_nonneg :: "WelfordState_t \<Rightarrow> fixed_t list \<Rightarrow> bool" where
  "deltas_nonneg st [] = True"
| "deltas_nonneg st (x # xs) =
     (w_mean st \<le>s x \<and>
      (case welford_add_sample st x of Inl e \<Rightarrow> False | Inr st' \<Rightarrow> deltas_nonneg st' xs))"

definition above_running_mean :: "fixed_t list \<Rightarrow> bool" where
  "above_running_mean xs =
     (case xs of
        [] \<Rightarrow> True
      | x # ys \<Rightarrow>
          (case welford_add_sample welford_init x of
             Inl e \<Rightarrow> False
           | Inr st \<Rightarrow> deltas_nonneg st ys))"

text \<open>
  \<open>n\<close> times the exact sum of squared deviations from the exact mean, in squared raw
  units: \<open>n * sum (x - sum xs / n)^2 = n * sum x^2 - (sum xs)^2\<close>.  The exact sample
  variance, in raw Q15.16 units, is \<open>n_sq_dev xs / (65536 * n * (n - 1))\<close>.
\<close>

definition n_sq_dev :: "fixed_t list \<Rightarrow> int" where
  "n_sq_dev xs =
     int (length xs) * sum_list (map (\<lambda>x. sint x * sint x) xs) - (sum_list (map sint xs))\<^sup>2"

text \<open>
  The distance of the returned variance from the exact sample variance, in ULPs times
  \<open>65536 * n * (n - 1)\<close>.
\<close>

definition variance_excess :: "fixed_t list \<Rightarrow> WelfordState_t \<Rightarrow> int" where
  "variance_excess xs st =
     65536 * int (length xs) * (int (length xs) - 1) * sint (welford_get_variance st) -
     n_sq_dev xs"

text \<open>The claim's bound on the variance: it is within 1 ULP of the exact sample variance.\<close>

definition variance_within_one_ulp :: "fixed_t list \<Rightarrow> WelfordState_t \<Rightarrow> bool" where
  "variance_within_one_ulp xs st =
     (\<bar>variance_excess xs st\<bar> \<le> 65536 * int (length xs) * (int (length xs) - 1))"

text \<open>
  The largest distance of a sample above the first one, in raw units (0 when there is
  none), and a range of inputs on which \<open>m2\<close> stays below \<open>2^31\<close>: every summand
  \<open>fixed_mul delta delta2\<close> is at most \<open>spread^2 / 65536 + 1\<close>.
\<close>

definition sample_spread :: "fixed_t list \<Rightarrow> int" where
  "sample_spread xs =
     (case xs of [] \<Rightarrow> 0 | x # ys \<Rightarrow> foldr (\<lambda>y w. max (sint y - sint x) w) ys 0)"

definition m2_in_range :: "fixed_t list \<Rightarrow> bool" where
  "m2_in_range xs =
     (int (length xs) * (sample_spread xs * sample_spread xs div 65536 + 1) < 2 ^ 31)"

text \<open>
  The bound on the returned variance that holds on that range: more than
  \<open>- (1 + n / (2 * (n - 1)))\<close> ULP (so within 2 ULP) below the exact sample variance, and
  at most \<open>n / (2 * (n - 1)) + (n - 1) * (spread + n / 4) / 65536\<close> ULP above it.
\<close>

definition variance_in_bounds :: "fixed_t list \<Rightarrow> WelfordState_t \<Rightarrow> bool" where
  "variance_in_bounds xs st =
     (let n = int (length xs); W = sample_spread xs
      in - (32768 * n * n + 65536 * n * (n - 1)) < variance_excess xs st \<and>
         4 * variance_excess xs st
           \<le> 131072 * n * n + 4 * n * (n - 1) * (n - 1) * W + n * n * (n - 1) * (n - 1))"

text \<open>
  The invariant of the accumulation after the samples \<open>ys\<close> (first sample \<open>x1\<close>, spread
  at most \<open>W\<close>): with \<open>m\<close> the stored mean and \<open>M\<close> the stored \<open>m2\<close>, the mean lies between
  \<open>x1\<close> and the exact mean, and \<open>65536 * M\<close> is close to the sum of the squared
  deviations from \<open>m\<close>.
\<close>

definition welford_inv :: "int \<Rightarrow> int \<Rightarrow> fixed_t list \<Rightarrow> WelfordState_t \<Rightarrow> bool" where
  "welford_inv x1 W ys st =
     (let k = int (length ys); m = sint (w_mean st); M = sint (w_m2 st);
          S = sum_list (map sint ys); S2 = sum_list (map (\<lambda>x. sint x * sint x) ys)
      in uint (w_n st) = k \<and> 1 \<le> k \<and> x1 \<le> m \<and> m - x1 \<le> W \<and>
         0 \<le> S - k * m \<and> 2 * (S - k * m) \<le> k * (k - 1) \<and>
         0 \<le> M \<and> M \<le> k * (W * W div 65536 + 1) \<and>
         - (32768 * k) \<le> 65536 * M - (S2 - 2 * m * S + k * (m * m)) \<and>
         65536 * M - (S2 - 2 * m * S + k * (m * m))
           \<le> 32768 * k + (k - 1) * (k - 1) * (m - x1))"

text \<open>The accumulator that the samples 1.0, 2.0, 3.0 leave.\<close>

definition welford_after_1_2_3 :: WelfordState_t where
  "welford_after_1_2_3 =
     \<lparr> w_n = 3, w_mean = 131072, w_m2 = 131072, w_min_val = 65536, w_max_val = 196608,
       w_variance = 0, w_std_dev = 0 \<rparr>"

text \<open>The accumulator that the raw samples 0, 0, 5, 196608 leave.\<close>

definition welford_after_0_0_5_3 :: WelfordState_t where
  "welford_after_0_0_5_3 =
     \<lparr> w_n = 4, w_mean = 49152, w_m2 = 442366, w_min_val = 0, w_max_val = 196608,
       w_variance = 0, w_std_dev = 0 \<rparr>"

section \<open>Compression codec: delta and RLE (storage/compression.c, compression.h)\<close>

definition COMPRESSION_MAX_BLOCK_SIZE :: nat where
  "COMPRESSION_MAX_BLOCK_SIZE = 1024"

definition RLE_MAX_RUN_LENGTH :: nat where
  "RLE_MAX_RUN_LENGTH = 255"

text \<open>
  The codecs read an input array of \<open>len\<close> bytes and fill an output array from position
  0; the model takes the input as a list and returns the list of the bytes written, whose
  length is the returned \<open>out_pos\<close>.  A loop over the input is a recursion over the
  unread rest; \<open>out_pos\<close> is passed along where the source tests it.

  \<open>delta_encode\<close>: \<open>last\<close> (here \<open>last_val\<close>) and \<open>delta\<close> are \<open>int16_t\<close>.  The loop stops when the input is
  used up or \<open>out_pos\<close> has reached \<open>COMPRESSION_MAX_BLOCK_SIZE\<close>.
\<close>

fun delta_encode_loop :: "8 word list \<Rightarrow> 16 word \<Rightarrow> nat \<Rightarrow> 8 word list" where
  "delta_encode_loop [] last_val out_pos = []"
| "delta_encode_loop (x # xs) last_val out_pos =
     (if out_pos < COMPRESSION_MAX_BLOCK_SIZE then
        let delta = ucast x - last_val
        in if - 128 \<le>s delta \<and> delta \<le>s 127
           then ucast (delta AND 0xFF) # delta_encode_loop xs (ucast x) (out_pos + 1)
           else [0x80, ucast (signed_drop_bit 8 delta), ucast (delta AND 0xFF)] @
                delta_encode_loop xs (ucast x) (out_pos + 3)
      else [])"

definition delta_encode :: "8 word list \<Rightarrow> 8 word list" where
  "delta_encode input =
     (case input of [] \<Rightarrow> [] | x # xs \<Rightarrow> x # delta_encode_loop xs (ucast x) 1)"

text \<open>
  \<open>delta_decode\<close>: a byte \<open>0x80\<close> is an escape when at least two more bytes follow
  (\<open>in_pos + 1 < len\<close>); every other byte, and a \<open>0x80\<close> within the final two bytes, is a
  sign-extended 8-bit delta.
\<close>

fun delta_decode_loop :: "8 word list \<Rightarrow> 16 word \<Rightarrow> 8 word list" where
  "delta_decode_loop [] last_val = []"
| "delta_decode_loop (byte # hi # lo # rest) last_val =
     (if byte = 0x80 then
        let delta = push_bit 8 (ucast hi) OR ucast lo;
            last_val = last_val + delta
        in ucast last_val # delta_decode_loop rest last_val
      else
        let delta = scast byte;
            last_val = last_val + delta
        in ucast last_val # delta_decode_loop (hi # lo # rest) last_val)"
| "delta_decode_loop (byte # rest) last_val =
     (let delta = scast byte;
          last_val = last_val + delta
      in ucast last_val # delta_decode_loop rest last_val)"

definition delta_decode :: "8 word list \<Rightarrow> 8 word list" where
  "delta_decode input =
     (case input of [] \<Rightarrow> [] | x # xs \<Rightarrow> x # delta_decode_loop xs (ucast x))"

text \<open>
  \<open>rle_encode\<close>.  \<open>count_run symbol rest run_length\<close> is the inner loop that extends the
  run over the bytes \<open>rest\<close> after the current one; \<open>run_length\<close> is a \<open>uint8_t\<close> that the
  loop keeps at or below \<open>RLE_MAX_RUN_LENGTH\<close>.
\<close>

fun count_run :: "8 word \<Rightarrow> 8 word list \<Rightarrow> nat \<Rightarrow> nat" where
  "count_run symbol [] run_length = run_length"
| "count_run symbol (y # ys) run_length =
     (if y = symbol \<and> run_length < RLE_MAX_RUN_LENGTH
      then count_run symbol ys (run_length + 1) else run_length)"

function rle_encode_loop :: "8 word list \<Rightarrow> nat \<Rightarrow> 8 word list" where
  "rle_encode_loop [] out_pos = []"
| "rle_encode_loop (symbol # rest) out_pos =
     (if out_pos < COMPRESSION_MAX_BLOCK_SIZE - 2 then
        let run_length = count_run symbol rest 1
        in if 3 \<le> run_length
           then [0x00, word_of_nat run_length, symbol] @
                rle_encode_loop (drop run_length (symbol # rest)) (out_pos + 3)
           else if symbol = 0x00
             then [0x00, 0x01, symbol] @ rle_encode_loop rest (out_pos + 3)
             else symbol # rle_encode_loop rest (out_pos + 1)
      else [])"
  by pat_completeness auto
termination
proof (relation "measure (\<lambda>(input, out_pos). length input)")
  show "wf (measure (\<lambda>(input, out_pos). length input))"
    by simp
next
  fix symbol :: "8 word" and rest out_pos x
  assume "x = count_run symbol rest 1"
  moreover have "r \<le> count_run symbol ys r" for r ys
    by (induction ys arbitrary: r) (auto intro: Suc_leD)
  ultimately have "1 \<le> x"
    by simp
  then show "((drop x (symbol # rest), out_pos + 3), symbol # rest, out_pos)
      \<in> measure (\<lambda>(input, out_pos). length input)"
    by simp
qed simp_all

definition rle_encode :: "8 word list \<Rightarrow> 8 word list" where
  "rle_encode input = rle_encode_loop input 0"

text \<open>
  \<open>rle_decode\<close>.  \<open>emit_run k symbol out_pos\<close> is the run loop with \<open>k\<close> rounds left; it
  stops writing when \<open>out_pos\<close> reaches \<open>COMPRESSION_MAX_BLOCK_SIZE\<close>.  Literal bytes are
  written without that test.  Each \<open>break\<close> of the source ends the output.
\<close>

fun emit_run :: "nat \<Rightarrow> 8 word \<Rightarrow> nat \<Rightarrow> 8 word list" where
  "emit_run 0 symbol out_pos = []"
| "emit_run (Suc k) symbol out_pos =
     (if out_pos < COMPRESSION_MAX_BLOCK_SIZE then symbol # emit_run k symbol (out_pos + 1)
      else [])"

fun rle_decode_loop :: "8 word list \<Rightarrow> nat \<Rightarrow> 8 word list" where
  "rle_decode_loop [] out_pos = []"
| "rle_decode_loop (byte # rest) out_pos =
     (if byte = 0x00 then
        (case rest of
           [] \<Rightarrow> []
         | next # rest1 \<Rightarrow>
             if next = 0x00 then 0x00 # rle_decode_loop rest1 (out_pos + 1)
             else if next = 0x01 then
               (case rest1 of
                  [] \<Rightarrow> []
                | lit # rest2 \<Rightarrow> lit # rle_decode_loop rest2 (out_pos + 1))
             else
               (case rest1 of
                  [] \<Rightarrow> []
                | symbol # rest2 \<Rightarrow>
                    let run = emit_run (unat next) symbol out_pos
                    in run @ rle_decode_loop rest2 (out_pos + length run)))
      else byte # rle_decode_loop rest (out_pos + 1))"

definition rle_decode :: "8 word list \<Rightarrow> 8 word list" where
  "rle_decode input = rle_decode_loop input 0"

text \<open>
  No byte of \<open>xs\<close> is 128 less than its predecessor (\<open>prev\<close> for the first): the case in
  which the one-byte form of the delta is the escape byte \<open>0x80\<close>.
\<close>

fun no_delta_minus_128 :: "8 word \<Rightarrow> 8 word list \<Rightarrow> bool" where
  "no_delta_minus_128 prev [] = True"
| "no_delta_minus_128 prev (x # xs) = (unat prev \<noteq> unat x + 128 \<and> no_delta_minus_128 x xs)"

text \<open>An input in which no byte is 128 less than the byte before it.\<close>

definition delta_escape_free :: "8 word list \<Rightarrow> bool" where
  "delta_escape_free input = (case input of [] \<Rightarrow> True | x # xs \<Rightarrow> no_delta_minus_128 x xs)"

section \<open>Clustering engine: k-means (analysis/clustering.c, clustering.h)\<close>

definition KMEANS_MAX_K :: nat where
  "KMEANS_MAX_K = 5"


text \<open>
  \<open>DataPoint_t\<close> and \<open>Centroid_t\<close> both have fields \<open>x\<close> and \<open>y\<close>; they are \<open>px\<close>, \<open>py\<close>
  and \<open>cx\<close>, \<open>cy\<close> here.  A \<open>Dataset_t\<close> is its \<open>count\<close> valid points, \<open>count\<close> being the
  length of \<open>points\<close> (a \<open>uint16_t\<close>, at most \<open>MAX_PULSE_COUNT\<close>).  \<open>centroids\<close> is the
  whole array of \<open>KMEANS_MAX_K\<close> entries; the functions below read its first \<open>k\<close> entries,
  and \<open>clustering_kmeans\<close> sets \<open>k\<close> to at most \<open>KMEANS_MAX_K\<close>.
\<close>

record DataPoint_t =
  px :: fixed_t
  py :: fixed_t
  cluster_id :: "8 word"
  frame_id :: "8 word"

record Dataset_t =
  points :: "DataPoint_t list"
  num_features :: "8 word"

record Centroid_t =
  cx :: fixed_t
  cy :: fixed_t
  point_count :: "16 word"
  inertia :: fixed_t

record KMeansResult_t =
  centroids :: "Centroid_t list"
  kmeans_k :: "8 word"
  iterations :: "8 word"
  converged :: bool
  total_inertia :: fixed_t
  silhouette_score :: fixed_t














text \<open>
  \<open>clustering_kmeans\<close>: the result starts as all zeros (\<open>memset\<close>), \<open>k\<close> is defaulted and
  clamped, and the first \<open>k\<close> points seed the centroids.
\<close>

definition zero_centroid :: Centroid_t where
  "zero_centroid = \<lparr> cx = 0, cy = 0, point_count = 0, inertia = 0 \<rparr>"


text \<open>
  The points that the returned data set assigns to cluster \<open>i\<close>, and the claim's exact
  mean: \<open>n\<close> times the centroid coordinate is the sum of the assigned coordinates.
\<close>

definition assigned_to :: "nat \<Rightarrow> DataPoint_t list \<Rightarrow> DataPoint_t list" where
  "assigned_to i ps = filter (\<lambda>p. unat (cluster_id p) = i) ps"

definition cluster_members :: "Dataset_t \<Rightarrow> nat \<Rightarrow> DataPoint_t list" where
  "cluster_members data i = assigned_to i (points data)"


text \<open>
  What the code computes instead: the 32-bit sum of the assigned coordinates divided by
  their number, truncated towards zero.
\<close>

definition centroid_is_truncated_mean :: "KMeansResult_t \<Rightarrow> Dataset_t \<Rightarrow> nat \<Rightarrow> bool" where
  "centroid_is_truncated_mean result data i =
     (let ms = cluster_members data i; c = centroids result ! i
      in cx c = sdiv32 (sum_list (map px ms)) (word_of_nat (length ms)) \<and>
         cy c = sdiv32 (sum_list (map py ms)) (word_of_nat (length ms)))"

definition total_point_count :: "KMeansResult_t \<Rightarrow> nat" where
  "total_point_count result =
     sum_list (map (\<lambda>c. unat (point_count c)) (take (unat (kmeans_k result)) (centroids result)))"

definition two_point_dataset :: Dataset_t where
  "two_point_dataset =
     \<lparr> points = [\<lparr> px = 0, py = 0, cluster_id = 0, frame_id = 0 \<rparr>,
                 \<lparr> px = 1, py = 0, cluster_id = 0, frame_id = 0 \<rparr>],
       num_features = 2 \<rparr>"

text \<open>
  What holds between the rounds of \<open>clustering_kmeans_iterative\<close>, and what one round
  establishes: every \<open>cluster_id\<close> is below \<open>k\<close> (or 0), every \<open>point_count\<close> is the number
  of points assigned to the cluster, and the centroid of a non-empty cluster is the
  truncated mean.
\<close>

definition kmeans_pre :: "KMeansResult_t \<Rightarrow> Dataset_t \<Rightarrow> bool" where
  "kmeans_pre r d =
     (length (centroids r) = KMEANS_MAX_K \<and> unat (kmeans_k r) \<le> KMEANS_MAX_K \<and>
      length (points d) < 65536)"

definition kmeans_post :: "KMeansResult_t \<Rightarrow> Dataset_t \<Rightarrow> bool" where
  "kmeans_post r d =
     ((\<forall>p\<in>set (points d). unat (cluster_id p) < max (unat (kmeans_k r)) 1) \<and>
      (\<forall>i<unat (kmeans_k r).
         point_count (centroids r ! i) = word_of_nat (length (assigned_to i (points d)))) \<and>
      (\<forall>i<unat (kmeans_k r). assigned_to i (points d) \<noteq> [] \<longrightarrow>
         cx (centroids r ! i) =
           sdiv32 (sum_list (map px (assigned_to i (points d))))
             (word_of_nat (length (assigned_to i (points d)))) \<and>
         cy (centroids r ! i) =
           sdiv32 (sum_list (map py (assigned_to i (points d))))
             (word_of_nat (length (assigned_to i (points d))))))"

text \<open>The result for \<open>two_point_dataset\<close> and \<open>k = 1\<close>.\<close>

definition two_point_result :: KMeansResult_t where
  "two_point_result =
     \<lparr> centroids =
         [\<lparr> cx = 0, cy = 0, point_count = 2, inertia = 0 \<rparr>,
          zero_centroid, zero_centroid, zero_centroid, zero_centroid],
       kmeans_k = 1, iterations = 1, converged = True, total_inertia = 0,
       silhouette_score = 0 \<rparr>"




section \<open>Properties of the fixed-point library\<close>

lemma fixed_mul_one_nonneg: "0 \<le>s a \<Longrightarrow> fixed_mul a FIXED_ONE = a"
  by (simp add: fixed_mul_def FIXED_ONE_def FIXED_SCALE_def FIXED_FRACTIONAL_BITS_def
      drop_bit_eq_div word_sle_eq Let_def)

lemma fixed_mul_one_neg: "a <s 0 \<Longrightarrow> fixed_mul a FIXED_ONE = a - 1"
proof -
  assume "a <s 0"
  then have neg: "sint a < 0"
    by (simp add: word_sless_alt)
  have "(sint a * 65536 - 32768) div 65536 = sint a - 1"
    by linarith
  with neg show ?thesis
    by (simp add: fixed_mul_def FIXED_ONE_def FIXED_SCALE_def FIXED_FRACTIONAL_BITS_def
        drop_bit_eq_div Let_def mult_less_0_iff)
qed

lemma fixed_div_self_pos: "0 <s a \<Longrightarrow> fixed_div a a = FIXED_ONE"
proof -
  assume "0 <s a"
  then have pos: "0 < sint a"
    by (simp add: word_sless_alt)
  then have nz: "a \<noteq> 0"
    by auto
  have "(sint a div 2 + 65536 * sint a) div sint a = 65536 + sint a div 2 div sint a"
    using pos by (subst div_mult_self1) simp_all
  moreover have "sint a div 2 div sint a = 0"
    using pos by (intro div_pos_pos_trivial) simp_all
  ultimately have "(sint a * 65536 + sint a div 2) div sint a = 65536"
    by (simp add: ac_simps)
  with pos nz show ?thesis
    by (simp add: fixed_div_def FIXED_ONE_def FIXED_SCALE_def FIXED_FRACTIONAL_BITS_def
        sint_signed_drop_bit_eq drop_bit_eq_div push_bit_eq_mult Let_def signed_divide_int_def
        word_sle_eq)
qed

lemma fixed_div_self_neg: "a <s 0 \<Longrightarrow> fixed_div a a = 65535"
proof -
  assume "a <s 0"
  then have neg: "sint a < 0"
    by (simp add: word_sless_alt)
  then have nz: "a \<noteq> 0"
    by auto
  define m where "m = - sint a"
  have m: "0 < m" "sint a = - m"
    using neg by (simp_all add: m_def)
  define r where "r = - ((- m) div 2)"
  have r: "0 < r" "r \<le> m" "(- m) div 2 = - r"
    using m by (simp_all add: r_def)
  have "\<bar>- m * 65536 - (- m) div 2\<bar> = 65535 * m + (m - r)"
    using r m by simp
  moreover have "(65535 * m + (m - r)) div m = 65535 + (m - r) div m"
    using m by (subst add.commute, subst div_mult_self1) simp_all
  moreover have "(m - r) div m = 0"
    using r m by (intro div_pos_pos_trivial) simp_all
  ultimately have "\<bar>- m * 65536 - (- m) div 2\<bar> div m = 65535"
    by simp
  moreover have "- m * 65536 - (- m) div 2 < 0"
    using r m by simp
  ultimately have "(- m * 65536 - (- m) div 2) sdiv (- m) = 65535"
    using m by (simp add: signed_divide_int_def sgn_if)
  then have eq: "(sint a * 65536 - sint a div 2) sdiv sint a = 65535"
    by (simp add: m)
  have "fixed_div a a = word_of_int ((sint a * 65536 - sint a div 2) sdiv sint a)"
    using neg nz
    by (simp add: fixed_div_def FIXED_FRACTIONAL_BITS_def
        sint_signed_drop_bit_eq drop_bit_eq_div push_bit_eq_mult Let_def mult_less_0_iff)
  then show ?thesis
    by (simp only: eq) simp
qed

text \<open>
  C6.  The multiplicative identity laws \<open>fixed_mul(a, FIXED_ONE) == a\<close> and
  \<open>fixed_div(a, a) == FIXED_ONE\<close> hold for positive \<open>a\<close> (the lemmas above) and fail for
  every negative \<open>a\<close>: the rounding term is subtracted and the arithmetic shift then
  rounds down once more, and the division adds the half-divisor with the wrong sign.  At
  \<open>a = -1\<close> (the raw value \<open>0xFFFFFFFF\<close>) the code returns \<open>-2\<close> and \<open>65535\<close>.
\<close>

theorem fixed_identity_laws_fail_at_minus_one:
  "fixed_mul (- 1) FIXED_ONE = - 2 \<and> fixed_mul (- 1) FIXED_ONE \<noteq> - 1 \<and>
   fixed_div (- 1) (- 1) = 65535 \<and> fixed_div (- 1) (- 1) \<noteq> FIXED_ONE"
  by code_simp

text \<open>
  C7.  The numerical fallbacks: \<open>fixed_div\<close> by zero returns \<open>FIXED_MAX\<close> for a
  non-negative numerator and \<open>FIXED_MIN\<close> for a negative one, \<open>fixed_sqrt\<close> of a negative
  argument returns 0, and \<open>fixed_log\<close> of a non-positive argument returns \<open>FIXED_MIN\<close>.
  The three functions are total: the loop of \<open>fixed_sqrt\<close> is bounded by 8 and the loop
  of \<open>fixed_log\<close> terminates (the termination proof of \<open>log_reduce\<close>).
\<close>

theorem fixed_point_fallbacks:
  "fixed_div a 0 = (if 0 \<le>s a then FIXED_MAX else FIXED_MIN) \<and>
   (x <s 0 \<longrightarrow> fixed_sqrt x = 0) \<and>
   (y \<le>s 0 \<longrightarrow> fixed_log y = FIXED_MIN)"
  by (simp add: fixed_div_def fixed_sqrt_def fixed_log_def word_sle_eq word_sless_alt)

theorem fixed_point_fallbacks_witness:
  "fixed_div 5 0 = FIXED_MAX \<and> fixed_div (- 5) 0 = FIXED_MIN \<and>
   (- 65536 :: fixed_t) <s 0 \<and> fixed_sqrt (- 65536) = 0 \<and>
   (0 :: fixed_t) \<le>s 0 \<and> fixed_log 0 = FIXED_MIN \<and> fixed_log (- 65536) = FIXED_MIN"
  using fixed_point_fallbacks [of 5 "- 65536" 0] fixed_point_fallbacks [of "- 5" "- 65536" "- 65536"]
  by (simp add: word_sle_eq word_sless_alt)

section \<open>Properties of the threat score\<close>

lemma clamp_score_le: "unat (if 1000 < (s :: 16 word) then 1000 else s) \<le> 1000"
  by (simp add: word_less_nat_alt)

lemma vulnerability_score_le: "unat (threat_model_calculate_vulnerability_score ctx) \<le> 1000"
  unfolding threat_model_calculate_vulnerability_score_def Let_def
  by (rule clamp_score_le)

lemma risk_level_band:
  "agrees_with_band_map \<lparr> level = threat_model_calculate_risk_level ctx, has_checksum = c,
       has_rolling_code = r, is_static = s, assessed_static_ratio = t,
       vulnerability_score = threat_model_calculate_vulnerability_score ctx \<rparr>"
  using vulnerability_score_le [of ctx]
  by (simp add: agrees_with_band_map_def threat_model_calculate_risk_level_def Let_def
      VULN_SCORE_CRITICAL_def VULN_SCORE_HIGH_def VULN_SCORE_MEDIUM_def VULN_SCORE_LOW_def
      word_le_nat_alt)

text \<open>
  C5.  Every assessment that the threat model writes, by the full analysis
  (\<open>threat_model_assess_vulnerabilities\<close>) or by the single-frame path
  (\<open>threat_model_quick_assess\<close>), has a score in 0..1000 and a level that agrees with the
  band map: Critical iff score >= 900, High iff 700 <= score < 900, Medium iff
  400 <= score < 700, Low otherwise.
\<close>

theorem threat_score_band:
  "agrees_with_band_map (threat_model_assess_vulnerabilities ctx) \<and>
   agrees_with_band_map (threat_model_quick_assess entropy_lt_2 entropy_lt_4 data)"
proof
  show "agrees_with_band_map (threat_model_assess_vulnerabilities ctx)"
    unfolding threat_model_assess_vulnerabilities_def by (rule risk_level_band)
  show "agrees_with_band_map (threat_model_quick_assess entropy_lt_2 entropy_lt_4 data)"
    by (simp add: threat_model_quick_assess_def agrees_with_band_map_def Let_def)
qed

theorem threat_score_band_witness:
  "agrees_with_band_map (threat_model_assess_vulnerabilities
      \<lparr> entropy_points = Some 300, static_ratio = 100, crc_validated = False,
        rolling_code_detected = False, exact_replay_detected = True \<rparr>) \<and>
   agrees_with_band_map (threat_model_quick_assess False True [1, 2, 3]) \<and>
   level (threat_model_assess_vulnerabilities
      \<lparr> entropy_points = Some 300, static_ratio = 100, crc_validated = False,
        rolling_code_detected = False, exact_replay_detected = True \<rparr>) = RISK_CRITICAL"
  using threat_score_band [of "\<lparr> entropy_points = Some 300, static_ratio = 100,
        crc_validated = False, rolling_code_detected = False, exact_replay_detected = True \<rparr>"
      False True "[1, 2, 3]"]
  by (simp add: threat_model_assess_vulnerabilities_def threat_model_calculate_risk_level_def
      threat_model_calculate_vulnerability_score_def VULN_SCORE_CRITICAL_def)

section \<open>Properties of the modulation classifier\<close>

lemma count_long_pulses_eq:
  "count_long_pulses ps z = z + word_of_nat (length (filter (\<lambda>p. 1000 < width_us p) ps))"
  by (induction ps arbitrary: z) simp_all

lemma long_filter_eq:
  "filter (\<lambda>p. 1000 < width_us p) ps = filter (\<lambda>p. 1000 < unat (width_us p)) ps"
  by (rule filter_cong) (simp_all add: word_less_nat_alt)

text \<open>
  C9, as amended.  For a population of at least 10 pulses (and at most
  \<open>MAX_PULSE_COUNT\<close>, the capacity of the pulse array) the classifier returns OOK when
  more than 1/3 of the pulses are wider than 1000 microseconds, otherwise FSK when at
  least 2 clusters were detected, otherwise ASK, in this order of precedence; for fewer
  than 10 pulses it returns Unknown.
\<close>

theorem detect_modulation_type_spec:
  assumes "length pulses \<le> MAX_PULSE_COUNT"
  shows "protocol_infer_detect_modulation_type cluster_count pulses =
     (if length pulses < 10 then MOD_UNKNOWN
      else if length pulses < 3 * long_pulse_count pulses then MOD_OOK
      else if 2 \<le> unat cluster_count then MOD_FSK
      else MOD_ASK)"
proof -
  have n: "length pulses < 65536"
    using assms by (simp add: MAX_PULSE_COUNT_def)
  have l: "long_pulse_count pulses \<le> length pulses"
    by (simp add: long_pulse_count_def)
  have c: "unat (word_of_nat (length pulses) :: 16 word) = length pulses"
    using n by (simp add: unat_of_nat)
  have z: "unat (count_long_pulses pulses 0) = long_pulse_count pulses"
  proof -
    have "long_pulse_count pulses < 65536"
      using n l by simp
    then show ?thesis
      by (simp add: count_long_pulses_eq long_filter_eq unat_of_nat flip: long_pulse_count_def)
  qed
  have d: "(word_of_nat (length pulses) div 3 < count_long_pulses pulses 0) =
      (length pulses < 3 * long_pulse_count pulses)"
    by (simp add: word_less_nat_alt unat_div c z) arith
  have t: "((word_of_nat (length pulses) :: 16 word) < 10) = (length pulses < 10)"
    by (simp add: word_less_nat_alt c)
  show ?thesis
    by (simp add: protocol_infer_detect_modulation_type_def Let_def d t word_le_nat_alt)
qed

theorem detect_modulation_type_spec_witness:
  "length (replicate 12 long_pulse) \<le> MAX_PULSE_COUNT \<and>
   protocol_infer_detect_modulation_type 0 (replicate 12 long_pulse) = MOD_OOK"
  using detect_modulation_type_spec [of "replicate 12 long_pulse" 0]
  by (simp add: MAX_PULSE_COUNT_def long_pulse_count_def long_pulse_def)

text \<open>
  C9 as stated fails: of nine pulses of 2000 microseconds all, hence more than 1/3, are
  wider than 1000 microseconds, and the classifier returns Unknown, not OOK.
\<close>

theorem detect_modulation_type_counterexample:
  "length (replicate 9 long_pulse) < 3 * long_pulse_count (replicate 9 long_pulse) \<and>
   protocol_infer_detect_modulation_type 0 (replicate 9 long_pulse) = MOD_UNKNOWN"
  by (simp add: protocol_infer_detect_modulation_type_def long_pulse_count_def long_pulse_def)

section \<open>Properties of the fingerprinting engine\<close>

lemma crc16_bits_8:
  "crc16_bits 8 c =
     crc_step (crc_step (crc_step (crc_step (crc_step (crc_step (crc_step (crc_step c)))))))"
  by (simp add: eval_nat_numeral)

lemma replicate_16:
  "replicate 16 x = [x, x, x, x, x, x, x, x, x, x, x, x, x, x, x, x]"
  by (simp add: numeral_eq_Suc)

lemma hash_of_zero_fingerprint: "fingerprinting_calculate_hash zero_fingerprint = 0x2A45"
  unfolding fingerprinting_calculate_hash_def fingerprint_bytes_def zero_fingerprint_def
    le32_def le16_def
  by (simp add: crc16_bits_8 crc_step_def replicate_16)

lemma hash_ignores_unique_hash:
  "fingerprinting_calculate_hash (fp\<lparr> unique_hash := h \<rparr>) = fingerprinting_calculate_hash fp"
  by (simp add: fingerprinting_calculate_hash_def fingerprint_bytes_def)

text \<open>
  When the argument is \<open>&capture_state.current_fingerprint\<close>, the one call inside the
  engine, the stored hash is the CRC of the other fields.
\<close>

lemma generate_fingerprint_current_hash:
  "unique_hash (current_fingerprint
      (fst (fingerprinting_generate_fingerprint Current (cs, caller)))) =
   fingerprinting_calculate_hash (current_fingerprint
      (fst (fingerprinting_generate_fingerprint Current (cs, caller))))"
  by (simp add: fingerprinting_generate_fingerprint_def Let_def hash_ignores_unique_hash)

lemma generate_fingerprint_caller_fresh:
  "snd (fingerprinting_generate_fingerprint Caller
      (fingerprinting_start_capture 0, zero_fingerprint)) = zero_fingerprint"
  by (simp add: fingerprinting_generate_fingerprint_def fingerprinting_start_capture_def
      fingerprinting_analyze_timing_drift_def fingerprinting_analyze_rise_fall_slopes_def
      fingerprinting_analyze_clock_stability_def fingerprinting_analyze_rssi_envelope_def
      zero_fingerprint_def)

text \<open>
  C2.  The claim fails for a caller-owned output record: the hash is computed on the
  output record before \<open>memcpy\<close> overwrites that record, stored hash included, with
  \<open>capture_state.current_fingerprint\<close>, whose hash field the function never updates.
  Right after \<open>fingerprinting_start_capture\<close>, the record produced in a caller-owned
  buffer has all fields zero and \<open>unique_hash\<close> 0, while the CRC-16-CCITT of its other
  fields is \<open>0x2A45\<close>.
\<close>

theorem generate_fingerprint_caller_stale_hash:
  "unique_hash (snd (fingerprinting_generate_fingerprint Caller
      (fingerprinting_start_capture 0, zero_fingerprint))) = 0 \<and>
   fingerprinting_calculate_hash (snd (fingerprinting_generate_fingerprint Caller
      (fingerprinting_start_capture 0, zero_fingerprint))) = 0x2A45"
  by (simp add: generate_fingerprint_caller_fresh hash_of_zero_fingerprint)
    (simp add: zero_fingerprint_def)

lemma process_frame_zero_length:
  "fp_state cs = FINGERPRINT_STATE_SAMPLING \<Longrightarrow>
   length (symbol_timings cs) < FINGERPRINT_SAMPLE_COUNT \<Longrightarrow>
   frame_length frame = 0 \<Longrightarrow>
   fingerprinting_process_frame frame cs = Inl DivisionByZero"
  by (simp add: fingerprinting_process_frame_def Let_def)

text \<open>
  C10.  The claim fails: a frame of length 0, which the ingest interface admits,
  processed in the Sampling state while the symbol-timing ring is not full, makes
  \<open>fingerprinting_process_frame\<close> divide \<open>duration_us\<close> by zero.  Here it is the first
  frame after \<open>fingerprinting_start_capture\<close>.
\<close>

theorem process_frame_zero_length_divides_by_zero:
  "fingerprinting_process_frame empty_frame (fingerprinting_start_capture 0) = Inl DivisionByZero"
  by (simp add: fingerprinting_process_frame_def Let_def empty_frame_def
      fingerprinting_start_capture_def FINGERPRINT_SAMPLE_COUNT_def)

section \<open>Properties of the histogram\<close>

lemma histogram_init_wf:
  assumes "histogram_init n mn mx = Inr h"
  shows "histogram_wf 0 h"
proof -
  obtain nb bw where h: "h = \<lparr> bins = replicate HISTOGRAM_MAX_BINS 0, num_bins = nb, min_val = mn,
      max_val = mx, bin_width = bw, total_samples = 0, peak_bin = 0, peak_count = 0 \<rparr>"
    and bw: "bw \<noteq> 0"
    using assms by (auto simp: histogram_init_def Let_def FIXED_ONE_def split: if_splits)
  show ?thesis
    by (simp add: h bw histogram_wf_def histogram_invariant_def HISTOGRAM_MAX_BINS_def
        list_all_iff sum_list_replicate)
qed

lemma histogram_add_wf:
  assumes wf: "histogram_wf k h" and k: "k < 65535" and add: "histogram_add h v = Inr h'"
  shows "histogram_wf (Suc k) h'"
proof (cases "v <s min_val h \<or> max_val h <s v")
  case True
  then have "h' = h"
    using add by (simp add: histogram_add_def)
  then show ?thesis
    using wf by (simp add: histogram_wf_def)
next
  case False
  define bin0 :: "16 word" where "bin0 = ucast (sdiv32 (v - min_val h) (bin_width h))"
  define bin where "bin = (if num_bins h \<le> bin0 then num_bins h - 1 else bin0)"
  define i where "i = unat bin"
  define c where "c = bins h ! i + 1"
  have len: "length (bins h) = 256" and pk: "unat (peak_bin h) < 256" and bw: "bin_width h \<noteq> 0"
    and tot: "unat (total_samples h) \<le> k"
    and at_peak: "unat (bins h ! unat (peak_bin h)) = unat (peak_count h)"
    and below: "\<And>j. j < 256 \<Longrightarrow> unat (bins h ! j) \<le> unat (peak_count h)"
    and sum: "sum_list (map unat (bins h)) = unat (total_samples h)"
    using wf
    by (simp_all add: histogram_wf_def histogram_invariant_def HISTOGRAM_MAX_BINS_def list_all_length)
  define h1 where "h1 = h\<lparr> bins := (bins h)[i := c], total_samples := total_samples h + 1 \<rparr>"
  have add': "histogram_add h v =
      (if length (bins h) \<le> i then Inl IndexOutOfRange
       else if peak_count h < ucast c then Inr (h1\<lparr> peak_count := ucast c, peak_bin := bin \<rparr>)
       else Inr h1)"
    using False bw unfolding histogram_add_def bin0_def bin_def i_def c_def h1_def Let_def
    by simp
  have i: "i < 256"
    using add len unfolding add' by (simp split: if_splits)
  have "unat (bins h ! i) \<le> sum_list (map unat (bins h))"
    using elem_le_sum_list [of i "map unat (bins h)"] i len by simp
  then have old: "unat (bins h ! i) \<le> k"
    using sum tot by simp
  then have c: "unat c = Suc (unat (bins h ! i))"
    using k by (simp add: c_def unat_word_ariths)
  have uc: "unat (ucast c :: 32 word) = unat c"
  proof -
    have "unat c < 2 ^ 16"
      using unsigned_less [of c] by simp
    then have "unat c < 2 ^ 32"
      by simp
    then show ?thesis
      by (simp add: unsigned_ucast_eq take_bit_nat_eq_self)
  qed
  have tot': "unat (total_samples h + 1) = Suc (unat (total_samples h))"
    using tot k by (simp add: unat_word_ariths)
  have sum': "sum_list (map unat ((bins h)[i := c])) = Suc (unat (total_samples h))"
    using i len c sum elem_le_sum_list [of i "map unat (bins h)"]
    by (simp add: map_update sum_list_update)
  have h': "h' = (if peak_count h < ucast c then h1\<lparr> peak_count := ucast c, peak_bin := bin \<rparr> else h1)"
    using add i len unfolding add' by (simp split: if_splits)
  show ?thesis
  proof (cases "peak_count h < ucast c")
    case True
    then have gt: "unat (peak_count h) < unat c"
      by (simp add: word_less_nat_alt uc)
    have "unat ((bins h)[i := c] ! j) \<le> unat c" if "j < 256" for j
      using below [OF that] gt len that by (cases "j = i") (simp_all add: nth_list_update)
    then show ?thesis
      using True h' len i bw tot tot' sum' uc
      by (simp add: histogram_wf_def histogram_invariant_def HISTOGRAM_MAX_BINS_def
          list_all_length h1_def i_def [symmetric])
  next
    case False
    then have le: "unat c \<le> unat (peak_count h)"
      by (simp add: word_less_nat_alt uc)
    then have ne: "i \<noteq> unat (peak_bin h)"
      using c at_peak by auto
    have "unat ((bins h)[i := c] ! j) \<le> unat (peak_count h)" if "j < 256" for j
      using below [OF that] le len that by (cases "j = i") (simp_all add: nth_list_update)
    then show ?thesis
      using False h' len i bw tot tot' sum' pk ne at_peak
      by (simp add: histogram_wf_def histogram_invariant_def HISTOGRAM_MAX_BINS_def
          list_all_length h1_def)
  qed
qed

lemma histogram_after_adds_wf:
  "histogram_after_adds k h \<Longrightarrow> k < 65536 \<Longrightarrow> histogram_wf k h"
proof (induction rule: histogram_after_adds.induct)
  case (adds_init n mn mx h)
  then show ?case by (simp add: histogram_init_wf)
next
  case (adds_add k h v h')
  then show ?case by (simp add: histogram_add_wf)
qed

text \<open>
  C8, as amended.  For every histogram state reached from \<open>histogram_init\<close> by fewer
  than 65536 calls of \<open>histogram_add\<close> (and no other writing operation), the bin
  indexed by \<open>peak_bin\<close> holds count \<open>peak_count\<close>, \<open>peak_count\<close> is the maximum count
  over all bins, and the sum of all bin counts equals \<open>total_samples\<close>.
\<close>

theorem histogram_invariant_after_adds:
  "histogram_after_adds k h \<Longrightarrow> k < 65536 \<Longrightarrow> histogram_invariant h"
  using histogram_after_adds_wf [of k h] by (simp add: histogram_wf_def)


lemma two_sample_histogram_after_adds: "histogram_after_adds 2 two_sample_histogram"
proof -
  have 1: "histogram_init 2 0 131072 =
      Inr \<lparr> bins = replicate 256 0, num_bins = 2, min_val = 0, max_val = 131072,
            bin_width = 65536, total_samples = 0, peak_bin = 0, peak_count = 0 \<rparr>"
    by code_simp
  have 2: "histogram_add \<lparr> bins = replicate 256 0, num_bins = 2, min_val = 0, max_val = 131072,
            bin_width = 65536, total_samples = 0, peak_bin = 0, peak_count = 0 \<rparr> 0 =
      Inr \<lparr> bins = [1] @ replicate 255 0, num_bins = 2, min_val = 0, max_val = 131072,
            bin_width = 65536, total_samples = 1, peak_bin = 0, peak_count = 1 \<rparr>"
    by code_simp
  have 3: "histogram_add \<lparr> bins = [1] @ replicate 255 0, num_bins = 2, min_val = 0, max_val = 131072,
            bin_width = 65536, total_samples = 1, peak_bin = 0, peak_count = 1 \<rparr> 65536 =
      Inr two_sample_histogram"
    by code_simp
  show ?thesis
    using adds_add [OF adds_add [OF adds_init [OF 1] 2] 3] by (simp add: numeral_2_eq_2)
qed

theorem histogram_invariant_after_adds_witness:
  "histogram_after_adds 2 two_sample_histogram \<and> (2 :: nat) < 65536 \<and>
   histogram_invariant two_sample_histogram"
  using histogram_invariant_after_adds [OF two_sample_histogram_after_adds]
    two_sample_histogram_after_adds by simp

text \<open>
  C8 as stated fails: \<open>histogram_normalize\<close> is a histogram operation, and after two
  samples in two bins it turns both counts into \<open>32768\<close> (the Q15.16 value of 1/2) while
  \<open>peak_count\<close> stays 1 and \<open>total_samples\<close> stays 2.
\<close>

theorem histogram_invariant_counterexample:
  "histogram_reachable (histogram_normalize two_sample_histogram) \<and>
   \<not> histogram_invariant (histogram_normalize two_sample_histogram)"
proof
  have "histogram_after_adds k h \<Longrightarrow> histogram_reachable h" for k h
    by (induction rule: histogram_after_adds.induct) (auto intro: histogram_reachable.intros)
  then have "histogram_reachable two_sample_histogram"
    using two_sample_histogram_after_adds by blast
  then show "histogram_reachable (histogram_normalize two_sample_histogram)"
    by (rule reach_normalize)
  have "bins (histogram_normalize two_sample_histogram) ! 0 = 32768"
    by code_simp
  moreover have "peak_bin (histogram_normalize two_sample_histogram) = 0"
    "peak_count (histogram_normalize two_sample_histogram) = 1"
    by (simp_all add: histogram_normalize_def two_sample_histogram_def)
  ultimately show "\<not> histogram_invariant (histogram_normalize two_sample_histogram)"
    by (simp add: histogram_invariant_def)
qed

section \<open>Properties of the Welford accumulator\<close>

lemma uint_sub_signed:
  fixes a b :: "32 word"
  assumes "sint a \<le> sint b"
  shows "uint (b - a) = sint b - sint a"
proof -
  have r: "0 \<le> sint b - sint a" "sint b - sint a < 2 ^ 32"
    using assms sint_ge [of a] sint_lt [of b] by simp_all
  have "uint (b - a) = uint (word_of_int (sint b - sint a) :: 32 word)"
    by simp
  also have "\<dots> = (sint b - sint a) mod 2 ^ 32"
    by (simp only: uint_word_of_int) simp
  also have "\<dots> = sint b - sint a"
    using r by simp
  finally show ?thesis .
qed

lemma sint_add_nonneg:
  fixes a :: "32 word"
  assumes "0 \<le> q" "sint a + q < 2 ^ 31"
  shows "sint (a + word_of_int q) = sint a + q"
proof -
  have r: "- (2 ^ 31) \<le> sint a + q"
    using assms sint_ge [of a] by simp
  have "sint (a + word_of_int q) = sint (word_of_int (sint a + q) :: 32 word)"
    by simp
  also have "\<dots> = signed_take_bit 31 (sint a + q)"
    by (simp only: signed_of_int) simp
  also have "\<dots> = sint a + q"
    using r assms by (simp add: signed_take_bit_int_eq_self)
  finally show ?thesis .
qed


lemma int_div_le_self:
  fixes d m :: int
  assumes "0 \<le> d" "0 < m"
  shows "d div m \<le> d"
  using zdiv_mono2 [of d 1 m] assms by simp

lemma uint_succ:
  fixes a :: "32 word"
  assumes "uint a + 1 < 2 ^ 32"
  shows "uint (a + 1) = uint a + 1"
  using assms by (simp add: uint_word_ariths)

lemma fixed_mul_zero_right: "fixed_mul a 0 = 0"
  by (simp add: fixed_mul_def FIXED_SCALE_def FIXED_FRACTIONAL_BITS_def drop_bit_eq_div)

lemma welford_add_sample_first:
  assumes "w_n st = 0" "w_mean st = 0"
  shows "\<exists>st'. welford_add_sample st x = Inr st' \<and> w_n st' = 1 \<and> w_mean st' = x \<and>
    w_m2 st' = w_m2 st"
  using assms by (simp add: welford_add_sample_def Let_def fixed_mul_zero_right)


lemma sint_sub_signed:
  fixes a b :: "32 word"
  assumes "sint a \<le> sint b" "sint b - sint a < 2 ^ 31"
  shows "sint (b - a) = sint b - sint a"
proof -
  have "sint (b - a) = sint (word_of_int (sint b - sint a) :: 32 word)"
    by simp
  also have "\<dots> = signed_take_bit 31 (sint b - sint a)"
    by (simp only: signed_of_int) simp
  also have "\<dots> = sint b - sint a"
    using assms by (simp add: signed_take_bit_int_eq_self)
  finally show ?thesis .
qed

lemma fixed_mul_nonneg:
  assumes "0 \<le> sint a * sint b"
  shows "fixed_mul a b = word_of_int ((sint a * sint b + 32768) div 65536)"
  using assms
  by (simp add: fixed_mul_def FIXED_SCALE_def FIXED_FRACTIONAL_BITS_def drop_bit_eq_div Let_def)

lemma welford_add_sample_step:
  assumes n: "uint (w_n st) = k" and k: "k + 1 < 2 ^ 32"
    and le: "sint (w_mean st) \<le> sint x"
  shows "\<exists>st'. welford_add_sample st x = Inr st' \<and> uint (w_n st') = k + 1 \<and>
    sint (w_mean st') = sint (w_mean st) + (sint x - sint (w_mean st)) div (k + 1) \<and>
    w_m2 st' = w_m2 st + fixed_mul (x - w_mean st) (x - w_mean st')"
proof -
  define n' where "n' = w_n st + 1"
  define delta where "delta = x - w_mean st"
  define d where "d = sint x - sint (w_mean st)"
  have n': "uint n' = k + 1"
    using n k by (simp add: n'_def uint_succ)
  then have nz: "n' \<noteq> 0"
    using uint_nonnegative [of "w_n st"] n by auto
  have k0: "0 \<le> k"
    using n uint_nonnegative [of "w_n st"] by simp
  have d: "uint delta = d" "0 \<le> d"
    using le by (simp_all add: delta_def d_def uint_sub_signed)
  have q: "uint (delta div n') = d div (k + 1)"
    by (simp add: uint_div d n')
  have "d div (k + 1) \<le> d"
    using d k0 by (simp add: int_div_le_self)
  then have "sint (w_mean st) + d div (k + 1) < 2 ^ 31"
    using sint_lt [of x] by (simp add: d_def)
  moreover have "0 \<le> d div (k + 1)"
    using d k0 by (simp add: pos_imp_zdiv_nonneg_iff)
  ultimately have "sint (w_mean st + word_of_int (d div (k + 1))) =
      sint (w_mean st) + d div (k + 1)"
    by (rule sint_add_nonneg [rotated])
  moreover have "word_of_int (d div (k + 1)) = delta div n'"
    using q by (metis word_of_int_uint)
  ultimately have m: "sint (w_mean st + delta div n') = sint (w_mean st) + d div (k + 1)"
    by simp
  show ?thesis
    using nz n' m
    by (simp add: welford_add_sample_def Let_def n'_def [symmetric] delta_def [symmetric]
        d_def [symmetric])
qed


lemma m2_step:
  fixes k m x1 x S S2 M W :: int
  assumes k: "1 \<le> k" and lo: "x1 \<le> m" and hi: "m \<le> x" and xW: "x - x1 \<le> W"
    and D0: "0 \<le> S - k * m" and D1: "2 * (S - k * m) \<le> k * (k - 1)"
    and QL: "- (32768 * k) \<le> 65536 * M - (S2 - 2 * m * S + k * (m * m))"
    and QU: "65536 * M - (S2 - 2 * m * S + k * (m * m))
        \<le> 32768 * k + (k - 1) * (k - 1) * (m - x1)"
  defines "m' \<equiv> m + (x - m) div (k + 1)"
  defines "f \<equiv> ((x - m) * (x - m') + 32768) div 65536"
  shows "x1 \<le> m'" and "m' \<le> x" and "0 \<le> (x - m) * (x - m')" and "0 \<le> f"
    and "f \<le> W * W div 65536 + 1"
    and "0 \<le> (S + x) - (k + 1) * m'" and "2 * ((S + x) - (k + 1) * m') \<le> (k + 1) * k"
    and "- (32768 * (k + 1))
        \<le> 65536 * (M + f) - ((S2 + x * x) - 2 * m' * (S + x) + (k + 1) * (m' * m'))"
    and "65536 * (M + f) - ((S2 + x * x) - 2 * m' * (S + x) + (k + 1) * (m' * m'))
        \<le> 32768 * (k + 1) + k * k * (m' - x1)"
proof -
  define d where "d = x - m"
  define q where "q = d div (k + 1)"
  define r where "r = d mod (k + 1)"
  define D where "D = S - k * m"
  define P where "P = d * (d - q)"
  have d0: "0 \<le> d"
    using hi by (simp add: d_def)
  have dq: "d = (k + 1) * q + r"
    by (simp add: q_def r_def)
  have r: "0 \<le> r" "r \<le> k"
    using k pos_mod_bound [of "k + 1" d] by (simp_all add: r_def)
  have q0: "0 \<le> q"
    using d0 k by (simp add: q_def pos_imp_zdiv_nonneg_iff)
  have qd: "q \<le> d"
    using d0 k by (simp add: q_def int_div_le_self)
  have m': "m' = m + q"
    by (simp add: m'_def q_def d_def)
  have xe: "x = m + d"
    by (simp add: d_def)
  have xm': "x - m' = d - q"
    by (simp add: m' xe)
  show c1: "x1 \<le> m'"
    using lo q0 by (simp add: m')
  show c2: "m' \<le> x"
    using qd by (simp add: m' xe)
  have P0: "0 \<le> P"
    using d0 qd by (simp add: P_def)
  have Pe: "(x - m) * (x - m') = P"
    by (simp add: P_def xm' d_def)
  show c3: "0 \<le> (x - m) * (x - m')"
    using P0 by (simp only: Pe)
  have fe: "f = (P + 32768) div 65536"
    by (simp only: f_def Pe)
  show c4: "0 \<le> f"
    using P0 by (simp add: fe pos_imp_zdiv_nonneg_iff)
  have dW: "d \<le> W"
    using xW lo by (simp add: d_def)
  have W0: "0 \<le> W"
    using dW d0 by simp
  have "d * (d - q) \<le> W * W"
    by (rule mult_mono) (use dW d0 q0 W0 qd in simp_all)
  then have PW: "P \<le> W * W"
    by (simp only: P_def)
  have "(P + 32768) div 65536 \<le> (W * W + 65536) div 65536"
    by (rule zdiv_mono1) (use PW in simp_all)
  then show c5: "f \<le> W * W div 65536 + 1"
    by (simp add: fe)
  have De: "(S + x) - (k + 1) * m' = D + r"
    by (simp add: D_def m' xe dq algebra_simps)
  have D0': "0 \<le> D" and D1': "2 * D \<le> k * (k - 1)"
    using D0 D1 by (simp_all only: D_def)
  show c6: "0 \<le> (S + x) - (k + 1) * m'"
    unfolding De using D0' r by linarith
  have kk: "(k + 1) * k = k * (k - 1) + 2 * k"
    by (simp add: algebra_simps)
  show c7: "2 * ((S + x) - (k + 1) * m') \<le> (k + 1) * k"
    unfolding De kk using D1' r by (simp add: algebra_simps)
  define Qp where "Qp = S2 - 2 * m * S + k * (m * m)"
  define c where "c = q * (r + 2 * D)"
  have Qe: "(S2 + x * x) - 2 * m' * (S + x) + (k + 1) * (m' * m') = Qp + P - c"
    by (simp add: Qp_def P_def c_def D_def m' xe dq algebra_simps)
  define e where "e = 65536 * f - P"
  have "65536 * f = (P + 32768) - (P + 32768) mod 65536"
    by (simp add: fe minus_mod_eq_mult_div)
  moreover have "0 \<le> (P + 32768) mod 65536" "(P + 32768) mod 65536 < 65536"
    by simp_all
  ultimately have e: "- 32767 \<le> e" "e \<le> 32768"
    by (simp_all add: e_def)
  have c0: "0 \<le> c"
    using q0 r D0' by (simp add: c_def)
  have "k * (k - 1) + k = k * k"
    by (simp add: algebra_simps)
  then have "r + 2 * D \<le> k * k"
    using r D1' by simp
  then have "q * (r + 2 * D) \<le> q * (k * k)"
    using q0 by (rule mult_left_mono)
  then have cu: "c \<le> k * k * q"
    by (simp add: c_def mult.commute)
  have "(k - 1) * (k - 1) \<le> k * k"
    using k by (simp add: algebra_simps)
  then have t: "(k - 1) * (k - 1) * (m - x1) \<le> k * k * (m - x1)"
    using lo by (simp add: mult_right_mono)
  have t': "k * k * (m' - x1) = k * k * (m - x1) + k * k * q"
    by (simp add: m' algebra_simps)
  have tot: "65536 * (M + f) - (Qp + P - c) = (65536 * M - Qp) + e + c"
    by (simp add: e_def algebra_simps)
  have QL': "- (32768 * k) \<le> 65536 * M - Qp"
    and QU': "65536 * M - Qp \<le> 32768 * k + (k - 1) * (k - 1) * (m - x1)"
    using QL QU by (simp_all only: Qp_def)
  show "- (32768 * (k + 1))
        \<le> 65536 * (M + f) - ((S2 + x * x) - 2 * m' * (S + x) + (k + 1) * (m' * m'))"
    unfolding Qe tot using QL' e c0 by (simp add: algebra_simps)
  show "65536 * (M + f) - ((S2 + x * x) - 2 * m' * (S + x) + (k + 1) * (m' * m'))
        \<le> 32768 * (k + 1) + k * k * (m' - x1)"
    unfolding Qe tot t' using QU' e cu t by (simp add: algebra_simps)
qed


lemma spread_lt_2_31:
  fixes W k :: int
  assumes "0 \<le> W" "1 \<le> k" "k * (W * W div 65536 + 1) < 2 ^ 31"
  shows "W < 2 ^ 31" and "k < 2 ^ 31"
proof -
  define B where "B = W * W div 65536 + 1"
  have B1: "1 \<le> B"
    by (simp add: B_def pos_imp_zdiv_nonneg_iff)
  have kB: "k * B < 2 ^ 31"
    using assms(3) by (simp only: B_def)
  have "k * 1 \<le> k * B"
    using B1 assms(2) by (intro mult_left_mono) simp_all
  then show "k < 2 ^ 31"
    using kB by simp
  have "1 * B \<le> k * B"
    using B1 assms(2) by (intro mult_right_mono) simp_all
  then have B2: "B < 2 ^ 31"
    using kB by simp
  show "W < 2 ^ 31"
  proof (rule ccontr)
    assume "\<not> W < 2 ^ 31"
    then have "(2 ^ 31 :: int) \<le> W"
      by simp
    then have "(2 ^ 31 :: int) * 2 ^ 31 \<le> W * W"
      by (intro mult_mono) simp_all
    then have "((2 ^ 31 :: int) * 2 ^ 31) div 65536 \<le> W * W div 65536"
      by (intro zdiv_mono1) simp_all
    then show False
      using B2 by (simp add: B_def)
  qed
qed

lemma welford_inv_step:
  assumes inv: "welford_inv x1 W ys st" and le: "sint (w_mean st) \<le> sint x"
    and xW: "sint x - x1 \<le> W"
    and B: "(int (length ys) + 1) * (W * W div 65536 + 1) < 2 ^ 31"
  shows "\<exists>st'. welford_add_sample st x = Inr st' \<and> welford_inv x1 W (ys @ [x]) st'"
proof -
  define k where "k = int (length ys)"
  define m where "m = sint (w_mean st)"
  define M where "M = sint (w_m2 st)"
  define S where "S = sum_list (map sint ys)"
  define S2 where "S2 = sum_list (map (\<lambda>x. sint x * sint x) ys)"
  define Bd where "Bd = W * W div 65536 + 1"
  from inv have n: "uint (w_n st) = k" and k: "1 \<le> k" and lo: "x1 \<le> m" and mW: "m - x1 \<le> W"
    and D0: "0 \<le> S - k * m" and D1: "2 * (S - k * m) \<le> k * (k - 1)"
    and M0: "0 \<le> M" and MB: "M \<le> k * Bd"
    and QL: "- (32768 * k) \<le> 65536 * M - (S2 - 2 * m * S + k * (m * m))"
    and QU: "65536 * M - (S2 - 2 * m * S + k * (m * m))
        \<le> 32768 * k + (k - 1) * (k - 1) * (m - x1)"
    unfolding welford_inv_def Let_def k_def m_def M_def S_def S2_def Bd_def by blast+
  have hi: "m \<le> sint x"
    using le by (simp add: m_def)
  have W0: "0 \<le> W"
    using lo mW by simp
  have B': "(k + 1) * (W * W div 65536 + 1) < 2 ^ 31"
    using B by (simp only: k_def)
  have k1: "1 \<le> k + 1"
    using k by simp
  have W31: "W < 2 ^ 31" and k31: "k + 1 < 2 ^ 31"
    using spread_lt_2_31 [OF W0 k1 B'] by simp_all
  have k32: "k + 1 < 2 ^ 32"
    using k31 by simp
  obtain st' where st': "welford_add_sample st x = Inr st'" "uint (w_n st') = k + 1"
    "sint (w_mean st') = m + (sint x - m) div (k + 1)"
    "w_m2 st' = w_m2 st + fixed_mul (x - w_mean st) (x - w_mean st')"
    using welford_add_sample_step [OF n k32 le] unfolding m_def by blast
  define m' where "m' = m + (sint x - m) div (k + 1)"
  define f where "f = ((sint x - m) * (sint x - m') + 32768) div 65536"
  note step = m2_step [OF k lo hi xW D0 D1 QL QU, folded m'_def, folded f_def]
  have mean': "sint (w_mean st') = m'"
    by (simp only: st'(3) m'_def)
  have d1: "sint (x - w_mean st) = sint x - m"
    unfolding m_def
    by (rule sint_sub_signed) (use le xW lo W31 in \<open>simp_all add: m_def\<close>)
  have d2: "sint (x - w_mean st') = sint x - m'"
    unfolding mean' [symmetric]
    by (rule sint_sub_signed) (use step(1,2) xW W31 in \<open>simp_all add: mean'\<close>)
  have "fixed_mul (x - w_mean st) (x - w_mean st') = word_of_int f"
    unfolding f_def d1 [symmetric] d2 [symmetric]
    by (rule fixed_mul_nonneg) (use step(3) in \<open>simp only: d1 d2\<close>)
  then have m2': "w_m2 st' = w_m2 st + word_of_int f"
    by (simp only: st'(4))
  have "(k + 1) * Bd = k * Bd + Bd"
    by (simp add: algebra_simps)
  then have Mf: "M + f \<le> (k + 1) * Bd"
    using MB step(5) by (simp add: Bd_def)
  then have "sint (w_m2 st) + f < 2 ^ 31"
    using B' by (simp add: Bd_def M_def)
  then have M': "sint (w_m2 st') = M + f"
    unfolding m2' M_def by (rule sint_add_nonneg [OF step(4)])
  have len: "int (length (ys @ [x])) = k + 1"
    by (simp add: k_def)
  have sums: "sum_list (map sint (ys @ [x])) = S + sint x"
    "sum_list (map (\<lambda>x. sint x * sint x) (ys @ [x])) = S2 + sint x * sint x"
    by (simp_all add: S_def S2_def)
  have W': "m' - x1 \<le> W"
    using step(2) xW by simp
  have M0': "0 \<le> M + f"
    using M0 step(4) by simp
  have kk: "k + 1 - 1 = k"
    by simp
  have "welford_inv x1 W (ys @ [x]) st'"
    unfolding welford_inv_def Let_def len sums mean' M' st'(2) kk
    using k1 step(1) W' step(6) step(7) M0' Mf step(8) step(9)
    by (simp add: Bd_def)
  then show ?thesis
    using st'(1) by blast
qed

lemma welford_add_all_inv:
  assumes "welford_inv x1 W ys st" "deltas_nonneg st xs"
    "list_all (\<lambda>y. sint y - x1 \<le> W) xs"
    "(int (length ys) + int (length xs)) * (W * W div 65536 + 1) < 2 ^ 31"
  shows "\<exists>st'. welford_add_all st xs = Inr st' \<and> welford_inv x1 W (ys @ xs) st'"
  using assms
proof (induction xs arbitrary: ys st)
  case Nil
  then show ?case by simp
next
  case (Cons x xs)
  have le: "sint (w_mean st) \<le> sint x"
    using Cons.prems(2) by (simp add: word_sle_eq)
  have xW: "sint x - x1 \<le> W"
    using Cons.prems(3) by simp
  have B0: "0 \<le> W * W div 65536 + 1"
    by (simp add: pos_imp_zdiv_nonneg_iff)
  have "(int (length ys) + 1) * (W * W div 65536 + 1)
      \<le> (int (length ys) + int (length (x # xs))) * (W * W div 65536 + 1)"
    using B0 by (intro mult_right_mono) simp_all
  then have B: "(int (length ys) + 1) * (W * W div 65536 + 1) < 2 ^ 31"
    using Cons.prems(4) by simp
  obtain st1 where st1: "welford_add_sample st x = Inr st1" "welford_inv x1 W (ys @ [x]) st1"
    using welford_inv_step [OF Cons.prems(1) le xW B] by blast
  have a2: "deltas_nonneg st1 xs"
    using Cons.prems(2) by (simp add: st1)
  have a3: "list_all (\<lambda>y. sint y - x1 \<le> W) xs"
    using Cons.prems(3) by simp
  have a4: "(int (length (ys @ [x])) + int (length xs)) * (W * W div 65536 + 1) < 2 ^ 31"
    using Cons.prems(4) by (simp add: algebra_simps)
  from Cons.IH [OF st1(2) a2 a3 a4]
  show ?case
    by (simp add: st1)
qed

lemma deficit_step:
  fixes k d D :: int
  assumes "0 \<le> k" "0 \<le> d" "0 \<le> D" "2 * D \<le> k * (k - 1)"
  shows "0 \<le> D + (d - (k + 1) * (d div (k + 1)))"
    and "2 * (D + (d - (k + 1) * (d div (k + 1)))) \<le> (k + 1) * k"
proof -
  have r: "d - (k + 1) * (d div (k + 1)) = d mod (k + 1)"
    by (simp add: minus_mult_div_eq_mod)
  have "0 \<le> d mod (k + 1)" "d mod (k + 1) \<le> k"
    using assms pos_mod_bound [of "k + 1" d] by simp_all
  moreover have "(k + 1) * k = k * (k - 1) + 2 * k"
    by (simp add: algebra_simps)
  ultimately show "0 \<le> D + (d - (k + 1) * (d div (k + 1)))"
    and "2 * (D + (d - (k + 1) * (d div (k + 1)))) \<le> (k + 1) * k"
    using assms unfolding r by simp_all
qed

lemma welford_add_all_mean:
  assumes "uint (w_n st) = k" "k + int (length xs) < 2 ^ 32" "deltas_nonneg st xs"
    "0 \<le> S - k * sint (w_mean st)" "2 * (S - k * sint (w_mean st)) \<le> k * (k - 1)"
  shows "\<exists>st'. welford_add_all st xs = Inr st' \<and> uint (w_n st') = k + int (length xs) \<and>
    0 \<le> S + sum_list (map sint xs) - (k + int (length xs)) * sint (w_mean st') \<and>
    2 * (S + sum_list (map sint xs) - (k + int (length xs)) * sint (w_mean st'))
      \<le> (k + int (length xs)) * (k + int (length xs) - 1)"
  using assms
proof (induction xs arbitrary: st k S)
  case Nil
  then show ?case by simp
next
  case (Cons x xs)
  have k0: "0 \<le> k"
    using Cons.prems(1) uint_nonnegative [of "w_n st"] by simp
  have le: "sint (w_mean st) \<le> sint x"
    using Cons.prems(3) by (simp add: word_sle_eq)
  define d where "d = sint x - sint (w_mean st)"
  have d0: "0 \<le> d"
    using le by (simp add: d_def)
  obtain st1 where st1: "welford_add_sample st x = Inr st1" "uint (w_n st1) = k + 1"
    "sint (w_mean st1) = sint (w_mean st) + d div (k + 1)"
    using welford_add_sample_step [OF Cons.prems(1) _ le] Cons.prems(2)
    by (auto simp: d_def)
  define D where "D = S - k * sint (w_mean st)"
  have eq: "(S + sint x) - (k + 1) * sint (w_mean st1) = D + (d - (k + 1) * (d div (k + 1)))"
    by (simp add: st1 D_def d_def algebra_simps)
  have a5: "0 \<le> (S + sint x) - (k + 1) * sint (w_mean st1)"
    and a6: "2 * ((S + sint x) - (k + 1) * sint (w_mean st1)) \<le> (k + 1) * (k + 1 - 1)"
    unfolding eq using deficit_step [of k d D] k0 d0 Cons.prems(4,5) by (simp_all add: D_def)
  have a2: "(k + 1) + int (length xs) < 2 ^ 32"
    using Cons.prems(2) by simp
  have a3: "deltas_nonneg st1 xs"
    using Cons.prems(3) by (simp add: st1)
  from Cons.IH [OF st1(2) a2 a3 a5 a6]
  show ?case
    by (simp add: st1 algebra_simps)
qed


lemma sample_spread_foldr:
  "0 \<le> foldr (\<lambda>y w. max (sint y - x1) w) ys (0 :: int)"
  "list_all (\<lambda>y. sint y - x1 \<le> foldr (\<lambda>y w. max (sint y - x1) w) ys (0 :: int)) ys"
proof (induction ys)
  case Nil
  {
    case 1
    show ?case by simp
  next
    case 2
    show ?case by simp
  }
next
  case (Cons y ys)
  {
    case 1
    show ?case using Cons.IH(1) by simp
  next
    case 2
    have "list_all (\<lambda>z. sint z - x1 \<le> max (sint y - x1)
        (foldr (\<lambda>y w. max (sint y - x1) w) ys 0)) ys"
      using Cons.IH(2) by (simp add: list_all_iff max_def) force
    then show ?case by simp
  }
qed

lemma variance_bounds_int:
  fixes n S S2 m M W x1 :: int
  assumes n: "2 \<le> n" and lo: "x1 \<le> m" and mW: "m - x1 \<le> W"
    and D0: "0 \<le> S - n * m" and D1: "2 * (S - n * m) \<le> n * (n - 1)"
    and M0: "0 \<le> M"
    and QL: "- (32768 * n) \<le> 65536 * M - (S2 - 2 * m * S + n * (m * m))"
    and QU: "65536 * M - (S2 - 2 * m * S + n * (m * m))
        \<le> 32768 * n + (n - 1) * (n - 1) * (m - x1)"
  shows "- (32768 * n * n + 65536 * n * (n - 1))
      < 65536 * n * (n - 1) * (M div (n - 1)) - (n * S2 - S\<^sup>2)"
    and "4 * (65536 * n * (n - 1) * (M div (n - 1)) - (n * S2 - S\<^sup>2))
      \<le> 131072 * n * n + 4 * n * (n - 1) * (n - 1) * W + n * n * (n - 1) * (n - 1)"
proof -
  define D where "D = S - n * m"
  define A where "A = 65536 * M - (S2 - 2 * m * S + n * (m * m))"
  define r where "r = M mod (n - 1)"
  define t where "t = (n - 1) * (n - 1) * (m - x1)"
  define T where "T = (n - 1) * (n - 1) * W"
  have n0: "0 \<le> n"
    using n by simp
  have r: "0 \<le> r" "r < n - 1"
    using n pos_mod_bound [of "n - 1" M] by (simp_all add: r_def)
  have v: "(n - 1) * (M div (n - 1)) = M - r"
    by (simp add: r_def minus_mod_eq_mult_div)
  have E: "65536 * n * (n - 1) * (M div (n - 1)) - (n * S2 - S\<^sup>2)
      = n * A + D * D - 65536 * (n * r)"
  proof -
    have "65536 * n * (n - 1) * (M div (n - 1)) = 65536 * n * ((n - 1) * (M div (n - 1)))"
      by (simp only: mult.assoc)
    also have "\<dots> = 65536 * n * (M - r)"
      by (simp only: v)
    finally show ?thesis
      by (simp add: A_def D_def power2_eq_square algebra_simps)
  qed
  have AL: "- (32768 * n) \<le> A" and AU: "A \<le> 32768 * n + t"
    using QL QU by (simp_all only: A_def t_def)
  have "n * (- (32768 * n)) \<le> n * A"
    using AL n0 by (rule mult_left_mono)
  then have nAL: "- (32768 * (n * n)) \<le> n * A"
    by (simp add: algebra_simps)
  have "n * A \<le> n * (32768 * n + t)"
    using AU n0 by (rule mult_left_mono)
  then have nAU: "n * A \<le> 32768 * (n * n) + n * t"
    by (simp add: algebra_simps)
  have "(n - 1) * (n - 1) * (m - x1) \<le> (n - 1) * (n - 1) * W"
    using mW by (intro mult_left_mono) simp_all
  then have "t \<le> T"
    by (simp only: t_def T_def)
  then have "n * t \<le> n * T"
    using n0 by (rule mult_left_mono)
  then have nAU': "n * A \<le> 32768 * (n * n) + n * T"
    using nAU by simp
  have DD0: "0 \<le> D * D"
    by simp
  have D0': "0 \<le> D" and D1': "2 * D \<le> n * (n - 1)"
    using D0 D1 by (simp_all only: D_def)
  have "(2 * D) * (2 * D) \<le> (n * (n - 1)) * (n * (n - 1))"
    by (rule mult_mono) (use D0' D1' in linarith)+
  then have DDU: "4 * (D * D) \<le> (n * (n - 1)) * (n * (n - 1))"
    by (simp add: algebra_simps)
  have "n * r \<le> n * (n - 2)"
    using r n0 by (intro mult_left_mono) simp_all
  moreover have "n * (n - 2) = n * (n - 1) - n"
    by (simp add: algebra_simps)
  ultimately have nr: "n * r < n * (n - 1)"
    using n by linarith
  have nr0: "0 \<le> n * r"
    using r n0 by simp
  have e1: "32768 * n * n + 65536 * n * (n - 1) = 32768 * (n * n) + 65536 * (n * (n - 1))"
    by simp
  show "- (32768 * n * n + 65536 * n * (n - 1))
      < 65536 * n * (n - 1) * (M div (n - 1)) - (n * S2 - S\<^sup>2)"
    unfolding E e1 using nAL DD0 nr by linarith
  have lin: "\<And>a b c d e g :: int. a \<le> 32768 * d + e \<Longrightarrow> 4 * b \<le> g \<Longrightarrow> 0 \<le> c \<Longrightarrow>
      4 * (a + b - 65536 * c) \<le> 131072 * d + 4 * e + g"
    by simp
  have e2: "131072 * n * n + 4 * n * (n - 1) * (n - 1) * W + n * n * (n - 1) * (n - 1)
      = 131072 * (n * n) + 4 * (n * T) + (n * (n - 1)) * (n * (n - 1))"
    by (simp add: T_def algebra_simps)
  show "4 * (65536 * n * (n - 1) * (M div (n - 1)) - (n * S2 - S\<^sup>2))
      \<le> 131072 * n * n + 4 * n * (n - 1) * (n - 1) * W + n * n * (n - 1) * (n - 1)"
    unfolding E e2 by (rule lin [OF nAU' DDU nr0])
qed

lemma sint_eq_uint_nonneg:
  fixes a :: "32 word"
  assumes "0 \<le> sint a"
  shows "uint a = sint a"
proof -
  have "sint a < 2 ^ 32"
    using sint_lt [of a] by simp
  then have "take_bit 32 (sint a) = sint a"
    using assms by (simp add: take_bit_int_eq_self)
  then show ?thesis
    by (simp add: uint_sint)
qed

lemma sint_of_small_uint:
  fixes a :: "32 word"
  assumes "uint a < 2 ^ 31"
  shows "sint a = uint a"
proof -
  have "sint a = signed_take_bit 31 (uint a)"
    by (simp add: sint_uint)
  also have "\<dots> = uint a"
  proof (rule signed_take_bit_int_eq_self)
    have "- (2 ^ 31) \<le> (0 :: int)"
      by simp
    also have "(0 :: int) \<le> uint a"
      by simp
    finally show "- (2 ^ 31) \<le> uint a" .
    show "uint a < 2 ^ 31"
      by (rule assms)
  qed
  finally show ?thesis .
qed

lemma welford_variance_value:
  assumes n: "uint (w_n st) = n" "2 \<le> n" and M: "0 \<le> sint (w_m2 st)"
  shows "sint (welford_get_variance st) = sint (w_m2 st) div (n - 1)"
proof -
  have "uint (2 :: 32 word) \<le> uint (w_n st)"
    using n by simp
  then have ge: "2 \<le> w_n st"
    by (simp only: word_le_def)
  then have nl: "\<not> w_n st < 2"
    by simp
  have "uint (1 :: 32 word) \<le> uint (w_n st)"
    using n by simp
  then have "(1 :: 32 word) \<le> w_n st"
    by (simp only: word_le_def)
  then have n1: "uint (w_n st - 1) = n - 1"
    using n by (simp add: uint_minus_simple_alt)
  have u: "uint (w_m2 st div (w_n st - 1)) = sint (w_m2 st) div (n - 1)"
    by (simp add: uint_div n1 sint_eq_uint_nonneg [OF M])
  have "sint (w_m2 st) div (n - 1) \<le> sint (w_m2 st)"
    using M n by (intro int_div_le_self) simp_all
  then have "uint (w_m2 st div (w_n st - 1)) < 2 ^ 31"
    using sint_lt [of "w_m2 st"] by (simp add: u)
  then have "sint (w_m2 st div (w_n st - 1)) = uint (w_m2 st div (w_n st - 1))"
    by (rule sint_of_small_uint)
  then show ?thesis
    by (simp add: welford_get_variance_def nl u)
qed


lemma welford_inv_first:
  assumes "w_n st1 = 1" "w_mean st1 = x" "w_m2 st1 = 0" "0 \<le> W"
  shows "welford_inv (sint x) W [x] st1"
  using assms by (simp add: welford_inv_def Let_def pos_imp_zdiv_nonneg_iff algebra_simps)

lemma welford_inv_variance:
  assumes inv: "welford_inv (sint x) (sample_spread (x # ys)) (x # ys) st"
    and len: "2 \<le> length (x # ys)"
  shows "variance_in_bounds (x # ys) st"
proof -
  define xs where "xs = x # ys"
  define n where "n = int (length xs)"
  define m where "m = sint (w_mean st)"
  define M where "M = sint (w_m2 st)"
  define S where "S = sum_list (map sint xs)"
  define S2 where "S2 = sum_list (map (\<lambda>x. sint x * sint x) xs)"
  define W where "W = sample_spread xs"
  from inv have un: "uint (w_n st) = n" and lo: "sint x \<le> m" and mW: "m - sint x \<le> W"
    and D0: "0 \<le> S - n * m" and D1: "2 * (S - n * m) \<le> n * (n - 1)"
    and M0: "0 \<le> M"
    and QL: "- (32768 * n) \<le> 65536 * M - (S2 - 2 * m * S + n * (m * m))"
    and QU: "65536 * M - (S2 - 2 * m * S + n * (m * m))
        \<le> 32768 * n + (n - 1) * (n - 1) * (m - sint x)"
    unfolding welford_inv_def Let_def xs_def [symmetric] n_def m_def M_def S_def S2_def W_def
    by blast+
  have n2: "2 \<le> n"
    using len by (simp add: n_def xs_def)
  have v: "sint (welford_get_variance st) = M div (n - 1)"
    unfolding M_def using un n2 M0 [unfolded M_def] by (rule welford_variance_value)
  have ex: "variance_excess xs st = 65536 * n * (n - 1) * (M div (n - 1)) - (n * S2 - S\<^sup>2)"
    by (simp add: variance_excess_def n_sq_dev_def v n_def S_def S2_def)
  note b = variance_bounds_int [OF n2 lo mW D0 D1 M0 QL QU]
  have "variance_in_bounds xs st"
    unfolding variance_in_bounds_def Let_def ex n_def [symmetric] W_def [symmetric]
    using b by blast
  then show ?thesis
    by (simp only: xs_def)
qed

lemma fixed_mul_samples:
  "fixed_mul 0 0 = 0" "fixed_mul 5 4 = 0" "fixed_mul 196607 147456 = 442366"
  "fixed_mul 65536 0 = 0" "fixed_mul 65536 32768 = 32768" "fixed_mul 98304 65536 = 98304"
  "fixed_mul (- 1) (- 2147483648) = 32768"
  by (simp_all add: fixed_mul_def FIXED_SCALE_def FIXED_FRACTIONAL_BITS_def drop_bit_eq_div)

lemma welford_samples_1_2_3:
  "welford_samples [65536, 131072, 196608] = Inr welford_after_1_2_3"
  by (simp add: welford_samples_def welford_add_sample_def welford_init_def Let_def
      welford_after_1_2_3_def fixed_mul_samples word_sless_alt FIXED_MAX_def FIXED_MIN_def)

lemma welford_samples_0_0_5_3:
  "welford_samples [0, 0, 5, 196608] = Inr welford_after_0_0_5_3"
  by (simp add: welford_samples_def welford_add_sample_def welford_init_def Let_def
      welford_after_0_0_5_3_def fixed_mul_samples word_sless_alt FIXED_MAX_def FIXED_MIN_def)

lemma above_running_mean_1_2_3: "above_running_mean [65536, 131072, 196608]"
  by (simp add: above_running_mean_def welford_add_sample_def welford_init_def Let_def
      fixed_mul_samples word_sless_alt word_sle_eq FIXED_MAX_def FIXED_MIN_def)

text \<open>
  C3, as amended.  Take fewer than \<open>2^32\<close> samples, each one after the first at least the
  mean stored when it is added.  Then every call returns, the counter is the number of
  samples, and the stored mean is at most the exact mean and within \<open>(n - 1) / 2\<close> ULP of
  it: \<open>0 <= sum xs - n * mean <= n * (n - 1) / 2\<close> in raw Q15.16 units.
  \<open>welford_get_variance\<close> returns 0 for \<open>n < 2\<close>.  For \<open>n >= 2\<close>, when moreover
  \<open>n * (spread^2 / 65536 + 1) < 2^31\<close> for the largest distance \<open>spread\<close> of a sample above
  the first one (then \<open>m2\<close> does not overflow), the returned variance is less than
  \<open>1 + n / (2 * (n - 1))\<close> ULP below the exact sample variance
  \<open>sum (x - sum xs / n)^2 / (n - 1)\<close> and at most
  \<open>n / (2 * (n - 1)) + (n - 1) * (spread + n / 4) / 65536\<close> ULP above it.
\<close>

theorem welford_accuracy:
  assumes "above_running_mean xs" "length xs < 2 ^ 32"
  shows "\<exists>st. welford_samples xs = Inr st \<and> unat (w_n st) = length xs \<and>
    0 \<le> mean_deficit xs st \<and>
    2 * mean_deficit xs st \<le> int (length xs) * (int (length xs) - 1) \<and>
    (length xs < 2 \<longrightarrow> welford_get_variance st = 0) \<and>
    (2 \<le> length xs \<and> m2_in_range xs \<longrightarrow> variance_in_bounds xs st)"
proof (cases xs)
  case Nil
  then show ?thesis
    by (simp add: welford_samples_def welford_init_def mean_deficit_def welford_get_variance_def)
next
  case (Cons x ys)
  obtain st1 where st1: "welford_add_sample welford_init x = Inr st1" "w_n st1 = 1"
    "w_mean st1 = x" "w_m2 st1 = 0"
    using welford_add_sample_first [of welford_init x] by (auto simp: welford_init_def)
  have a1: "uint (w_n st1) = 1"
    by (simp add: st1)
  have a2: "1 + int (length ys) < 2 ^ 32"
    using assms(2) Cons by simp
  have a3: "deltas_nonneg st1 ys"
    using assms(1) by (simp add: above_running_mean_def Cons st1)
  have a5: "0 \<le> sint x - 1 * sint (w_mean st1)"
    and a6: "2 * (sint x - 1 * sint (w_mean st1)) \<le> 1 * (1 - 1)"
    by (simp_all add: st1)
  define n where "n = 1 + int (length ys)"
  from welford_add_all_mean [OF a1 a2 a3 a5 a6]
  obtain st where st: "welford_add_all st1 ys = Inr st" "uint (w_n st) = n"
    "0 \<le> sint x + sum_list (map sint ys) - n * sint (w_mean st)"
    "2 * (sint x + sum_list (map sint ys) - n * sint (w_mean st)) \<le> n * (n - 1)"
    unfolding n_def by auto
  have len: "int (length xs) = n"
    by (simp add: Cons n_def)
  have run: "welford_samples xs = Inr st"
    by (simp add: welford_samples_def Cons st1 st)
  have "int (unat (w_n st)) = int (length xs)"
    using st(2) len by simp
  then have cnt: "unat (w_n st) = length xs"
    by (simp only: of_nat_eq_iff)
  have def: "mean_deficit xs st = sint x + sum_list (map sint ys) - n * sint (w_mean st)"
    unfolding mean_deficit_def len by (simp add: Cons)
  have lt: "(w_n st < 2) = (length xs < 2)"
    using cnt by (simp add: word_less_nat_alt)
  have var0: "length xs < 2 \<longrightarrow> welford_get_variance st = 0"
    by (simp add: welford_get_variance_def lt)
  have d0: "0 \<le> mean_deficit xs st"
    using st(3) by (simp only: def)
  have d1: "2 * mean_deficit xs st \<le> int (length xs) * (int (length xs) - 1)"
    using st(4) by (simp only: def len)
  have var: "2 \<le> length xs \<and> m2_in_range xs \<longrightarrow> variance_in_bounds xs st"
  proof
    assume h: "2 \<le> length xs \<and> m2_in_range xs"
    define W where "W = sample_spread (x # ys)"
    have We: "W = foldr (\<lambda>y w. max (sint y - sint x) w) ys 0"
      by (simp add: W_def sample_spread_def)
    have W0: "0 \<le> W"
      unfolding We by (rule sample_spread_foldr(1))
    have b1: "welford_inv (sint x) W [x] st1"
      using st1(2,3,4) W0 by (rule welford_inv_first)
    have b3: "list_all (\<lambda>y. sint y - sint x \<le> W) ys"
      unfolding We by (rule sample_spread_foldr(2))
    have b4: "(int (length [x]) + int (length ys)) * (W * W div 65536 + 1) < 2 ^ 31"
      using h by (simp add: m2_in_range_def Cons W_def)
    from welford_add_all_inv [OF b1 a3 b3 b4]
    have "welford_inv (sint x) W (x # ys) st"
      by (simp add: st)
    then have "variance_in_bounds (x # ys) st"
      unfolding W_def using h by (intro welford_inv_variance) (simp_all add: Cons)
    then show "variance_in_bounds xs st"
      by (simp only: Cons)
  qed
  show ?thesis
    using run cnt d0 d1 var0 var by blast
qed

text \<open>
  The samples 1.0, 2.0, 3.0 satisfy the hypotheses: the stored mean is 2.0 and the returned
  variance is 1.0, both exact.
\<close>

theorem welford_accuracy_witness:
  "above_running_mean [65536, 131072, 196608] \<and>
   length [65536, 131072, 196608 :: fixed_t] < 2 ^ 32 \<and>
   2 \<le> length [65536, 131072, 196608 :: fixed_t] \<and>
   m2_in_range [65536, 131072, 196608] \<and>
   welford_samples [65536, 131072, 196608] = Inr welford_after_1_2_3 \<and>
   mean_deficit [65536, 131072, 196608] welford_after_1_2_3 = 0 \<and>
   welford_get_variance welford_after_1_2_3 = 65536 \<and>
   variance_excess [65536, 131072, 196608] welford_after_1_2_3 = 0 \<and>
   variance_in_bounds [65536, 131072, 196608] welford_after_1_2_3"
proof -
  have l: "length [65536, 131072, 196608 :: fixed_t] < 2 ^ 32"
    by simp
  have r: "m2_in_range [65536, 131072, 196608]"
    by (simp add: m2_in_range_def sample_spread_def)
  have v: "welford_get_variance welford_after_1_2_3 = 65536"
    by (simp add: welford_get_variance_def welford_after_1_2_3_def)
  have e: "variance_excess [65536, 131072, 196608] welford_after_1_2_3 = 0"
    by (simp add: variance_excess_def n_sq_dev_def v)
  have d: "mean_deficit [65536, 131072, 196608] welford_after_1_2_3 = 0"
    by (simp add: mean_deficit_def welford_after_1_2_3_def)
  show ?thesis
    using welford_accuracy [OF above_running_mean_1_2_3 l] r v e d above_running_mean_1_2_3
    by (simp add: welford_samples_1_2_3)
qed

text \<open>
  C3 as stated fails, for the mean and for the variance: after the raw samples
  0, 0, 5, 196608 the stored mean is 49152 while the exact mean is 49153.25, and the
  returned variance is 147455 while the exact sample variance is 147453.5 ULP.  Each
  truncating division \<open>delta / n\<close> loses up to one ULP of the mean, the losses add up, and
  \<open>m2\<close> accumulates the squared deviations from the stored means.
\<close>

theorem welford_accuracy_counterexample:
  "welford_samples [0, 0, 5, 196608] = Inr welford_after_0_0_5_3 \<and>
   \<not> mean_within_one_ulp [0, 0, 5, 196608] welford_after_0_0_5_3 \<and>
   \<not> variance_within_one_ulp [0, 0, 5, 196608] welford_after_0_0_5_3"
proof -
  have v: "welford_get_variance welford_after_0_0_5_3 = 147455"
    by (simp add: welford_get_variance_def welford_after_0_0_5_3_def)
  have m: "\<not> mean_within_one_ulp [0, 0, 5, 196608] welford_after_0_0_5_3"
    by (simp add: mean_within_one_ulp_def mean_deficit_def welford_after_0_0_5_3_def)
  have e: "\<not> variance_within_one_ulp [0, 0, 5, 196608] welford_after_0_0_5_3"
    by (simp add: variance_within_one_ulp_def variance_excess_def n_sq_dev_def v)
  show ?thesis
    using m e by (simp add: welford_samples_0_0_5_3)
qed

text \<open>That input lies inside the amended claim.\<close>

lemma above_running_mean_0_0_5_3:
  "above_running_mean [0, 0, 5, 196608] \<and> m2_in_range [0, 0, 5, 196608]"
  by (simp add: above_running_mean_def welford_add_sample_def welford_init_def Let_def
      fixed_mul_samples word_sless_alt word_sle_eq FIXED_MAX_def FIXED_MIN_def
      m2_in_range_def sample_spread_def)

text \<open>
  Outside the amended claim: when a sample lies below the running mean, \<open>delta\<close> is
  negative and the unsigned division \<open>delta / n\<close> yields a value near \<open>2^32 / n\<close>.
  After the raw samples 2, 1 the stored mean is \<open>0x80000001\<close>.
\<close>

lemma welford_decreasing_pair:
  "welford_samples [2, 1] =
     Inr \<lparr> w_n = 2, w_mean = 0x80000001, w_m2 = 32768, w_min_val = 1, w_max_val = 2,
           w_variance = 0, w_std_dev = 0 \<rparr>"
  by (simp add: welford_samples_def welford_add_sample_def welford_init_def Let_def
      fixed_mul_samples fixed_mul_zero_right word_sless_alt FIXED_MAX_def FIXED_MIN_def)

section \<open>Properties of the compression codec\<close>

lemma count_run_ge: "r \<le> count_run s ys r"
  by (induction ys arbitrary: r) (auto intro: Suc_leD)

lemma count_run_le: "r \<le> RLE_MAX_RUN_LENGTH \<Longrightarrow> count_run s ys r \<le> RLE_MAX_RUN_LENGTH"
  by (induction ys arbitrary: r) auto

lemma count_run_take:
  "count_run s ys r - r \<le> length ys \<and>
   take (count_run s ys r - r) ys = replicate (count_run s ys r - r) s"
proof (induction ys arbitrary: r)
  case Nil
  then show ?case by simp
next
  case (Cons y ys)
  show ?case
  proof (cases "y = s \<and> r < RLE_MAX_RUN_LENGTH")
    case True
    have "Suc r \<le> count_run s ys (Suc r)"
      by (rule count_run_ge)
    then have "count_run s ys (Suc r) - r = Suc (count_run s ys (Suc r) - Suc r)"
      by simp
    then show ?thesis
      using True Cons.IH [of "Suc r"] by simp
  next
    case False
    then show ?thesis by auto
  qed
qed

lemma run_prefix:
  assumes "n = count_run s rest 1"
  shows "n \<le> length (s # rest)" and "replicate n s @ drop n (s # rest) = s # rest"
proof -
  have n1: "1 \<le> n"
    using count_run_ge [of 1 s rest] assms by simp
  have t: "n - 1 \<le> length rest" "take (n - 1) rest = replicate (n - 1) s"
    using count_run_take [of s rest 1] assms by simp_all
  show "n \<le> length (s # rest)"
    using t n1 by simp
  have "take n (s # rest) = replicate n s"
    using t n1 by (cases n) simp_all
  then show "replicate n s @ drop n (s # rest) = s # rest"
    by (metis append_take_drop_id)
qed

lemma emit_run_replicate:
  "out_pos + k \<le> COMPRESSION_MAX_BLOCK_SIZE \<Longrightarrow> emit_run k s out_pos = replicate k s"
  by (induction k arbitrary: out_pos) simp_all

lemma rle_roundtrip_loop:
  "out_e + length (rle_encode_loop xs out_e) < COMPRESSION_MAX_BLOCK_SIZE - 2 \<Longrightarrow>
   out_d + length xs \<le> COMPRESSION_MAX_BLOCK_SIZE \<Longrightarrow>
   rle_decode_loop (rle_encode_loop xs out_e) out_d = xs"
proof (induction xs out_e arbitrary: out_d rule: rle_encode_loop.induct)
  case (1 out_pos)
  then show ?case by simp
next
  case (2 symbol rest out_pos)
  define n where "n = count_run symbol rest 1"
  have guard: "out_pos < COMPRESSION_MAX_BLOCK_SIZE - 2"
    using "2.prems"(1) by simp
  show ?case
  proof (cases "3 \<le> n")
    case True
    have n255: "n \<le> 255"
      using count_run_le [of 1 symbol rest] by (simp add: n_def RLE_MAX_RUN_LENGTH_def)
    then have un: "unat (word_of_nat n :: 8 word) = n"
      by (simp add: unat_of_nat)
    have ne: "(word_of_nat n :: 8 word) \<noteq> 0" "(word_of_nat n :: 8 word) \<noteq> 1"
      using un True by (metis not_numeral_le_zero unat_0, metis numeral_le_one_iff semiring_norm(70) unat_1)
    have pre: "n \<le> length (symbol # rest)"
      "replicate n symbol @ drop n (symbol # rest) = symbol # rest"
      using run_prefix [OF n_def] by simp_all
    have enc: "rle_encode_loop (symbol # rest) out_pos =
        [0x00, word_of_nat n, symbol] @ rle_encode_loop (drop n (symbol # rest)) (out_pos + 3)"
      using guard True by (simp add: n_def Let_def)
    have em: "emit_run n symbol out_d = replicate n symbol"
      using pre(1) "2.prems"(2) by (intro emit_run_replicate) simp
    have ih: "rle_decode_loop (rle_encode_loop (drop n (symbol # rest)) (out_pos + 3)) (out_d + n) =
        drop n (symbol # rest)"
    proof (rule "2.IH"(1) [OF guard n_def True])
      show "out_pos + 3 + length (rle_encode_loop (drop n (symbol # rest)) (out_pos + 3))
          < COMPRESSION_MAX_BLOCK_SIZE - 2"
        using "2.prems"(1) unfolding enc by simp
      show "out_d + n + length (drop n (symbol # rest)) \<le> COMPRESSION_MAX_BLOCK_SIZE"
        using "2.prems"(2) pre(1) by simp
    qed
    show ?thesis
      unfolding enc using ne un em ih pre(2) by simp
  next
    case False
    show ?thesis
    proof (cases "symbol = 0")
      case True
      have enc: "rle_encode_loop (symbol # rest) out_pos =
          [0x00, 0x01, symbol] @ rle_encode_loop rest (out_pos + 3)"
        using guard False True by (simp add: n_def Let_def)
      have "rle_decode_loop (rle_encode_loop rest (out_pos + 3)) (out_d + 1) = rest"
      proof (rule "2.IH"(2) [OF guard n_def False True])
        show "out_pos + 3 + length (rle_encode_loop rest (out_pos + 3))
            < COMPRESSION_MAX_BLOCK_SIZE - 2"
          using "2.prems"(1) unfolding enc by simp
        show "out_d + 1 + length rest \<le> COMPRESSION_MAX_BLOCK_SIZE"
          using "2.prems"(2) by simp
      qed
      then show ?thesis
        unfolding enc using True by simp
    next
      case nz: False
      have enc: "rle_encode_loop (symbol # rest) out_pos =
          symbol # rle_encode_loop rest (out_pos + 1)"
        using guard False nz by (simp add: n_def Let_def)
      have "rle_decode_loop (rle_encode_loop rest (out_pos + 1)) (out_d + 1) = rest"
      proof (rule "2.IH"(3) [OF guard n_def False nz])
        show "out_pos + 1 + length (rle_encode_loop rest (out_pos + 1))
            < COMPRESSION_MAX_BLOCK_SIZE - 2"
          using "2.prems"(1) unfolding enc by simp
        show "out_d + 1 + length rest \<le> COMPRESSION_MAX_BLOCK_SIZE"
          using "2.prems"(2) by simp
      qed
      then show ?thesis
        unfolding enc using nz by simp
    qed
  qed
qed

lemma ucast_low_byte: "(ucast ((d :: 16 word) AND 0xFF) :: 8 word) = ucast d"
proof -
  have m: "(0xFF :: 16 word) = mask 8"
    by (simp add: mask_eq_exp_minus_1)
  show ?thesis
    unfolding m by (rule bit_word_eqI) (simp add: bit_simps)
qed

lemma delta_as_int:
  "(ucast (x :: 8 word) :: 16 word) - ucast (p :: 8 word) = word_of_int (uint x - uint p)"
  by (simp only: ucast_eq wi_hom_sub)

lemma delta_range: "- 255 \<le> uint (x :: 8 word) - uint (p :: 8 word)"
  "uint (x :: 8 word) - uint (p :: 8 word) \<le> 255"
proof -
  have "uint x < 256" "uint p < 256" "0 \<le> uint x" "0 \<le> uint p"
    using uint_lt2p [of x] uint_lt2p [of p] by simp_all
  then show "- 255 \<le> uint x - uint p" "uint x - uint p \<le> 255"
    by linarith+
qed

lemma sint_delta:
  "sint ((ucast (x :: 8 word) :: 16 word) - ucast (p :: 8 word)) = uint x - uint p"
proof -
  have "sint (word_of_int (uint x - uint p) :: 16 word) = signed_take_bit 15 (uint x - uint p)"
    by (simp only: sint_sbintrunc') simp
  also have "\<dots> = uint x - uint p"
    using delta_range [of x p] by (intro signed_take_bit_int_eq_self) simp_all
  finally show ?thesis
    by (simp only: delta_as_int)
qed

lemma ucast_delta:
  "(ucast ((ucast (x :: 8 word) :: 16 word) - ucast (p :: 8 word)) :: 8 word) = x - p"
proof -
  have "(ucast (word_of_int (uint x - uint p) :: 16 word) :: 8 word) = word_of_int (uint x - uint p)"
    by (rule ucast_down_wi) (simp add: is_down)
  also have "\<dots> = word_of_int (uint x) - word_of_int (uint p)"
    by (simp only: wi_hom_sub)
  also have "\<dots> = x - p"
    by (simp only: word_of_int_uint)
  finally show ?thesis
    by (simp only: delta_as_int)
qed

lemma scast_small:
  fixes d :: "16 word"
  assumes "- 128 \<le> sint d" "sint d \<le> 127"
  shows "(scast (ucast d :: 8 word) :: 16 word) = d"
proof -
  have d: "word_of_int (sint d) = d"
    by simp
  have "(ucast (word_of_int (sint d) :: 16 word) :: 8 word) = word_of_int (sint d)"
    by (rule ucast_down_wi) (simp add: is_down)
  then have "(ucast d :: 8 word) = word_of_int (sint d)"
    by (simp only: d)
  then have "sint (ucast d :: 8 word) = signed_take_bit 7 (sint d)"
    by (simp only: sint_sbintrunc') simp
  also have "\<dots> = sint d"
    using assms by (intro signed_take_bit_int_eq_self) simp_all
  finally have "(scast (ucast d :: 8 word) :: 16 word) = word_of_int (sint d)"
    by (simp only: scast_eq)
  then show ?thesis
    by (simp only: d)
qed


lemma join_bytes:
  "push_bit 8 (ucast (ucast (signed_drop_bit 8 (d :: 16 word)) :: 8 word)) OR
   ucast (ucast (d AND 0xFF) :: 8 word) = d"
proof -
  have m: "(0xFF :: 16 word) = mask 8"
    by (simp add: mask_eq_exp_minus_1)
  show ?thesis
    unfolding m
  proof (rule bit_word_eqI)
    fix n :: nat
    assume "n < LENGTH(16)"
    then have n: "n < 16" by simp
    show "bit (push_bit 8 (ucast (ucast (signed_drop_bit 8 d) :: 8 word)) OR
        ucast (ucast (d AND mask 8) :: 8 word) :: 16 word) n = bit d n"
    proof (cases "n < 8")
      case True
      then show ?thesis by (simp add: bit_simps)
    next
      case False
      then have "8 + (n - 8) = n" "n - 8 < 8"
        using n by simp_all
      then show ?thesis
        using False n by (simp add: bit_simps)
    qed
  qed
qed

lemma ucast_ucast_byte: "(ucast (ucast (x :: 8 word) :: 16 word) :: 8 word) = x"
  by (rule bit_word_eqI) (simp add: bit_simps)

lemma delta_decode_small:
  "byte \<noteq> 0x80 \<Longrightarrow> delta_decode_loop (byte # rest) last_val =
     ucast (last_val + scast byte) # delta_decode_loop rest (last_val + scast byte)"
  by (cases "(byte # rest, last_val)" rule: delta_decode_loop.cases) (simp_all add: Let_def)

lemma delta_decode_escape:
  "delta_decode_loop (0x80 # hi # lo # rest) last_val =
     ucast (last_val + (push_bit 8 (ucast hi) OR ucast lo)) #
     delta_decode_loop rest (last_val + (push_bit 8 (ucast hi) OR ucast lo))"
  by (simp add: Let_def)

lemma delta_roundtrip_loop:
  "out_pos + length (delta_encode_loop xs (ucast p) out_pos) < COMPRESSION_MAX_BLOCK_SIZE \<Longrightarrow>
   no_delta_minus_128 p xs \<Longrightarrow>
   delta_decode_loop (delta_encode_loop xs (ucast p) out_pos) (ucast p) = xs"
proof (induction xs arbitrary: p out_pos)
  case Nil
  then show ?case by simp
next
  case (Cons x xs)
  define d :: "16 word" where "d = ucast x - ucast p"
  have guard: "out_pos < COMPRESSION_MAX_BLOCK_SIZE"
    using Cons.prems(1) by simp
  have sd: "sint d = uint x - uint p"
    by (simp only: d_def sint_delta)
  have "unat p \<noteq> unat x + 128"
    using Cons.prems(2) by simp
  then have "int (unat p) \<noteq> int (unat x + 128)"
    by (simp only: of_nat_eq_iff not_False_eq_True)
  then have "uint p \<noteq> uint x + 128"
    by simp
  then have ne: "sint d \<noteq> - 128"
    unfolding sd by linarith
  have nxt: "ucast p + d = (ucast x :: 16 word)"
    by (simp add: d_def)
  have rest: "no_delta_minus_128 x xs"
    using Cons.prems(2) by simp
  show ?case
  proof (cases "- 128 \<le>s d \<and> d \<le>s 127")
    case True
    define b :: "8 word" where "b = ucast (d AND 0xFF)"
    have rng: "- 128 \<le> sint d" "sint d \<le> 127"
      using True by (simp_all add: word_sle_eq)
    have b: "b = ucast d"
      by (simp only: b_def ucast_low_byte)
    have sb: "(scast b :: 16 word) = d"
      unfolding b using rng by (rule scast_small)
    have "b \<noteq> 0x80"
    proof
      assume "b = 0x80"
      then have "d = scast (0x80 :: 8 word)"
        using sb by simp
      then have "sint d = - 128"
        by simp
      then show False
        using ne by simp
    qed
    have enc: "delta_encode_loop (x # xs) (ucast p) out_pos =
        b # delta_encode_loop xs (ucast x) (out_pos + 1)"
      using guard True by (simp add: d_def [symmetric] b_def Let_def)
    have "delta_decode_loop (delta_encode_loop xs (ucast x) (out_pos + 1)) (ucast x) = xs"
      using Cons.prems(1) rest unfolding enc by (intro Cons.IH) simp_all
    then show ?thesis
      unfolding enc using \<open>b \<noteq> 0x80\<close>
      by (simp add: delta_decode_small sb nxt ucast_ucast_byte)
  next
    case False
    have enc: "delta_encode_loop (x # xs) (ucast p) out_pos =
        [0x80, ucast (signed_drop_bit 8 d), ucast (d AND 0xFF)] @
        delta_encode_loop xs (ucast x) (out_pos + 3)"
      using guard False by (auto simp add: d_def [symmetric] Let_def)
    have "delta_decode_loop (delta_encode_loop xs (ucast x) (out_pos + 3)) (ucast x) = xs"
      using Cons.prems(1) rest unfolding enc by (intro Cons.IH) simp_all
    then show ?thesis
      unfolding enc
      by (simp only: append.simps delta_decode_escape join_bytes nxt ucast_ucast_byte)
  qed
qed

text \<open>
  C1, as amended.  For every byte sequence \<open>s\<close>: \<open>rle_decode(rle_encode(s)) == s\<close> when
  \<open>s\<close> has at most \<open>COMPRESSION_MAX_BLOCK_SIZE\<close> bytes and its encoded form is shorter than
  the encoder's loop bound \<open>COMPRESSION_MAX_BLOCK_SIZE - 2\<close>; and
  \<open>delta_decode(delta_encode(s)) == s\<close> when the encoded form is shorter than
  \<open>COMPRESSION_MAX_BLOCK_SIZE\<close> and no byte of \<open>s\<close> is 128 less than its predecessor.
\<close>

theorem codec_roundtrip:
  "(length s \<le> COMPRESSION_MAX_BLOCK_SIZE \<longrightarrow>
    length (rle_encode s) < COMPRESSION_MAX_BLOCK_SIZE - 2 \<longrightarrow>
    rle_decode (rle_encode s) = s) \<and>
   (length (delta_encode s) < COMPRESSION_MAX_BLOCK_SIZE \<longrightarrow> delta_escape_free s \<longrightarrow>
    delta_decode (delta_encode s) = s)"
proof (intro conjI impI)
  assume "length s \<le> COMPRESSION_MAX_BLOCK_SIZE"
    and "length (rle_encode s) < COMPRESSION_MAX_BLOCK_SIZE - 2"
  then show "rle_decode (rle_encode s) = s"
    unfolding rle_decode_def rle_encode_def by (intro rle_roundtrip_loop) simp_all
next
  assume fits: "length (delta_encode s) < COMPRESSION_MAX_BLOCK_SIZE"
    and free: "delta_escape_free s"
  show "delta_decode (delta_encode s) = s"
  proof (cases s)
    case Nil
    then show ?thesis
      by (simp add: delta_decode_def delta_encode_def)
  next
    case (Cons x xs)
    have "delta_decode_loop (delta_encode_loop xs (ucast x) 1) (ucast x) = xs"
      using fits free
      by (intro delta_roundtrip_loop) (simp_all add: Cons delta_encode_def delta_escape_free_def)
    then show ?thesis
      by (simp add: Cons delta_decode_def delta_encode_def)
  qed
qed

lemma rle_encode_example:
  "rle_encode [0, 200, 200, 200, 5, 133, 6] = [0, 1, 0, 0, 3, 200, 5, 133, 6]"
  by code_simp

lemma delta_encode_example:
  "delta_encode [0, 200, 200, 200, 5, 133, 6] =
     [0, 128, 0, 200, 0, 0, 128, 255, 61, 128, 0, 128, 129]"
  by code_simp

theorem codec_roundtrip_witness:
  "length [0, 200, 200, 200, 5, 133, 6 :: 8 word] \<le> COMPRESSION_MAX_BLOCK_SIZE \<and>
   length (rle_encode [0, 200, 200, 200, 5, 133, 6]) < COMPRESSION_MAX_BLOCK_SIZE - 2 \<and>
   rle_decode (rle_encode [0, 200, 200, 200, 5, 133, 6]) = [0, 200, 200, 200, 5, 133, 6] \<and>
   length (delta_encode [0, 200, 200, 200, 5, 133, 6]) < COMPRESSION_MAX_BLOCK_SIZE \<and>
   delta_escape_free [0, 200, 200, 200, 5, 133, 6] \<and>
   delta_decode (delta_encode [0, 200, 200, 200, 5, 133, 6]) = [0, 200, 200, 200, 5, 133, 6]"
  using codec_roundtrip [of "[0, 200, 200, 200, 5, 133, 6]"]
  by (simp add: rle_encode_example delta_encode_example COMPRESSION_MAX_BLOCK_SIZE_def
      delta_escape_free_def)

lemma count_run_replicate:
  "r \<le> RLE_MAX_RUN_LENGTH \<Longrightarrow> count_run s (replicate k s) r = min (r + k) RLE_MAX_RUN_LENGTH"
  by (induction k arbitrary: r) auto

lemma emit_run_min:
  "emit_run k s out_pos = replicate (min k (COMPRESSION_MAX_BLOCK_SIZE - out_pos)) s"
proof (induction k arbitrary: out_pos)
  case 0
  then show ?case by simp
next
  case (Suc k)
  show ?case
  proof (cases "out_pos < COMPRESSION_MAX_BLOCK_SIZE")
    case True
    then have "min (Suc k) (COMPRESSION_MAX_BLOCK_SIZE - out_pos) =
        Suc (min k (COMPRESSION_MAX_BLOCK_SIZE - (out_pos + 1)))"
      by simp
    then show ?thesis
      using True Suc.IH [of "out_pos + 1"] by simp
  next
    case False
    then show ?thesis by simp
  qed
qed

lemma rle_encode_replicate_long:
  assumes "255 \<le> n" "out_pos < 1022"
  shows "rle_encode_loop (replicate n s) out_pos =
    [0, 255, s] @ rle_encode_loop (replicate (n - 255) s) (out_pos + 3)"
proof -
  obtain m where n: "n = Suc m"
    using assms(1) by (cases n) simp_all
  have "count_run s (replicate m s) 1 = 255"
    using assms(1) by (simp add: count_run_replicate RLE_MAX_RUN_LENGTH_def n)
  moreover have "drop 255 (s # replicate m s) = replicate (n - 255) s"
    using drop_replicate [of 255 "Suc m" s] by (simp add: n)
  ultimately show ?thesis
    using assms(2) by (simp add: n COMPRESSION_MAX_BLOCK_SIZE_def)
qed

lemma rle_encode_replicate_short:
  assumes "3 \<le> n" "n \<le> 255" "out_pos < 1022"
  shows "rle_encode_loop (replicate n s) out_pos = [0, word_of_nat n, s]"
proof -
  obtain m where n: "n = Suc m"
    using assms(1) by (cases n) simp_all
  have "count_run s (replicate m s) 1 = Suc m"
    using assms(2) by (simp add: count_run_replicate RLE_MAX_RUN_LENGTH_def n)
  then show ?thesis
    using assms by (simp add: n COMPRESSION_MAX_BLOCK_SIZE_def)
qed

lemma rle_encode_long_run:
  "rle_encode (replicate 1025 0xAA) =
     [0, 255, 0xAA, 0, 255, 0xAA, 0, 255, 0xAA, 0, 255, 0xAA, 0, 5, 0xAA]"
  by (simp add: rle_encode_def rle_encode_replicate_long rle_encode_replicate_short)

lemma rle_decode_long_run:
  "length (rle_decode [0, 255, 0xAA, 0, 255, 0xAA, 0, 255, 0xAA, 0, 255, 0xAA, 0, 5, 0xAA]) = 1024"
  by (simp add: rle_decode_def emit_run_min COMPRESSION_MAX_BLOCK_SIZE_def)

lemma delta_minus_128_example:
  "delta_encode [128, 0, 0, 0] = [128, 128, 0, 0]" "delta_decode [128, 128, 0, 0] = [128, 128]"
  by code_simp+

text \<open>
  C1 as stated fails for both codecs.  Delta: in \<open>[128, 0, 0, 0]\<close> the second byte is 128
  less than the first, the encoder writes the delta \<open>-128\<close> as the single byte \<open>0x80\<close>,
  and the decoder reads that byte as an escape and returns the two bytes \<open>[128, 128]\<close>.
  RLE: 1025 equal bytes are encoded in 15 bytes, and the decoder, which writes a run only
  while \<open>out_pos < COMPRESSION_MAX_BLOCK_SIZE\<close>, returns 1024 bytes.
\<close>

theorem codec_roundtrip_counterexample:
  "length (delta_encode [128, 0, 0, 0]) < COMPRESSION_MAX_BLOCK_SIZE \<and>
   delta_decode (delta_encode [128, 0, 0, 0]) \<noteq> [128, 0, 0, 0] \<and>
   length (rle_encode (replicate 1025 0xAA)) < COMPRESSION_MAX_BLOCK_SIZE - 2 \<and>
   rle_decode (rle_encode (replicate 1025 0xAA)) \<noteq> replicate 1025 0xAA"
proof -
  have "length (rle_decode (rle_encode (replicate 1025 0xAA))) \<noteq>
      length (replicate 1025 (0xAA :: 8 word))"
    by (simp only: rle_encode_long_run rle_decode_long_run) simp
  then have "rle_decode (rle_encode (replicate 1025 0xAA)) \<noteq> replicate 1025 0xAA"
    by metis
  then show ?thesis
    by (simp add: delta_minus_128_example rle_encode_long_run COMPRESSION_MAX_BLOCK_SIZE_def)
qed

section \<open>Properties of the k-means clustering\<close>









lemma kmeans_pre_fields [simp]:
  "kmeans_pre (r\<lparr> iterations := it \<rparr>) d = kmeans_pre r d"
  "kmeans_pre (r\<lparr> converged := cv \<rparr>) d = kmeans_pre r d"
  "kmeans_pre (r\<lparr> total_inertia := ti \<rparr>) d = kmeans_pre r d"
  "kmeans_pre (r\<lparr> silhouette_score := ss \<rparr>) d = kmeans_pre r d"
  by (simp_all add: kmeans_pre_def)

lemma kmeans_post_fields [simp]:
  "kmeans_post (r\<lparr> iterations := it \<rparr>) d = kmeans_post r d"
  "kmeans_post (r\<lparr> converged := cv \<rparr>) d = kmeans_post r d"
  "kmeans_post (r\<lparr> total_inertia := ti \<rparr>) d = kmeans_post r d"
  "kmeans_post (r\<lparr> silhouette_score := ss \<rparr>) d = kmeans_post r d"
  by (simp_all add: kmeans_post_def)











text \<open>That result satisfies the amended claim: the truncated mean of 0 and 1 is 0.\<close>

lemma kmeans_two_point_truncated_mean:
  "total_point_count two_point_result = 2 \<and>
   centroid_is_truncated_mean two_point_result two_point_dataset 0"
  by (simp add: total_point_count_def two_point_result_def centroid_is_truncated_mean_def
      cluster_members_def assigned_to_def two_point_dataset_def sdiv32_def
      signed_divide_int_def)

end
